theory Spec2Isabelle
  imports Main
begin

section \<open>Python strings\<close>

text \<open>
  A Python \<open>str\<close> is a sequence of Unicode code points, and \<open>len\<close> counts code points.
  The program's messages are Russian, so a string is modelled as the list of its code points.
  ASCII literals are written through \<open>u\<close>; the other literals of \<open>gui.py\<close> are given as
  code point lists.
\<close>

type_synonym ustring = "nat list"

definition u :: "string \<Rightarrow> ustring" where
  "u s = map of_char s"

text \<open>\<open>str.isspace\<close> for one code point: the characters \<open>str.strip()\<close> removes.\<close>

definition is_space :: "nat \<Rightarrow> bool" where
  "is_space c \<longleftrightarrow>
     (9 \<le> c \<and> c \<le> 13) \<or> (28 \<le> c \<and> c \<le> 32) \<or> c = 133 \<or> c = 160 \<or> c = 5760 \<or>
     (8192 \<le> c \<and> c \<le> 8202) \<or> c = 8232 \<or> c = 8233 \<or> c = 8239 \<or> c = 8287 \<or> c = 12288"

definition lstrip :: "ustring \<Rightarrow> ustring" where
  "lstrip s = dropWhile is_space s"

definition rstrip :: "ustring \<Rightarrow> ustring" where
  "rstrip s = rev (dropWhile is_space (rev s))"

definition strip :: "ustring \<Rightarrow> ustring" where
  "strip s = rstrip (lstrip s)"

definition startswith :: "ustring \<Rightarrow> ustring \<Rightarrow> bool" where
  "startswith s p \<longleftrightarrow> take (length p) s = p"

definition endswith :: "ustring \<Rightarrow> ustring \<Rightarrow> bool" where
  "endswith s p \<longleftrightarrow> length p \<le> length s \<and> drop (length s - length p) s = p"

text \<open>\<open>str(n)\<close> for a non-negative integer: its decimal digits.\<close>

fun str_nat :: "nat \<Rightarrow> ustring" where
  "str_nat n = (if n < 10 then [48 + n] else str_nat (n div 10) @ [48 + n mod 10])"

text \<open>Python truthiness of an optional string: \<open>None\<close> and \<open>""\<close> are false.\<close>

definition truthy :: "ustring option \<Rightarrow> bool" where
  "truthy p \<longleftrightarrow> (case p of None \<Rightarrow> False | Some s \<Rightarrow> s \<noteq> [])"

section \<open>The string literals of \<open>gui.py\<close>\<close>

definition msg_no_model :: ustring where
  "msg_no_model = [1054, 1064, 1048, 1041, 1050, 1040, 58, 32, 1052, 1086, 1076, 1077,
     1083, 1100, 32, 1085, 1077, 32, 1087, 1077, 1088, 1077, 1076, 1072, 1085, 1072, 32,
     1074, 32, 1088, 1072, 1073, 1086, 1095, 1080, 1081, 32, 1087, 1086, 1090, 1086,
     1082, 33]"

definition msg_internal_error :: ustring where
  "msg_internal_error = [1054, 1096, 1080, 1073, 1082, 1072, 58, 32, 1074, 1085, 1091,
     1090, 1088, 1077, 1085, 1085, 1103, 1103, 32, 1086, 1096, 1080, 1073, 1082, 1072,
     32, 1087, 1088, 1080, 1083, 1086, 1078, 1077, 1085, 1080, 1103, 46]"

definition msg_opening :: ustring where
  "msg_opening = [1054, 1090, 1082, 1088, 1099, 1090, 1080, 1077, 32, 1080, 1079, 1086,
     1073, 1088, 1072, 1078, 1077, 1085, 1080, 1103, 46, 46, 46]"

definition msg_resized_prefix :: ustring where
  "msg_resized_prefix = [1048, 1079, 1086, 1073, 1088, 1072, 1078, 1077, 1085, 1080,
     1077, 32, 1091, 1084, 1077, 1085, 1100, 1096, 1077, 1085, 1086, 32, 1076, 1086, 32]"

definition msg_preparing :: ustring where
  "msg_preparing = [1055, 1086, 1076, 1075, 1086, 1090, 1086, 1074, 1082, 1072, 32, 1074,
     1093, 1086, 1076, 1085, 1099, 1093, 32, 1076, 1072, 1085, 1085, 1099, 1093, 46, 46,
     46]"

definition msg_gen_start :: ustring where
  "msg_gen_start = [1053, 1072, 1095, 1072, 1083, 1086, 32, 1075, 1077, 1085, 1077, 1088,
     1072, 1094, 1080, 1080, 46, 46, 46]"

definition msg_gen_done_prefix :: ustring where
  "msg_gen_done_prefix = [1043, 1077, 1085, 1077, 1088, 1072, 1094, 1080, 1103, 32, 1079,
     1072, 1074, 1077, 1088, 1096, 1077, 1085, 1072, 32, 1079, 1072, 32]"

definition msg_gen_done_suffix :: ustring where
  "msg_gen_done_suffix = [32, 1089, 1077, 1082]"

definition msg_sentinel :: ustring where
  "msg_sentinel = [1052, 1086, 1076, 1077, 1083, 1100, 32, 1085, 1077, 32, 1089, 1084,
     1086, 1075, 1083, 1072, 32, 1080, 1079, 1074, 1083, 1077, 1095, 1100, 32, 1090,
     1077, 1082, 1089, 1090, 32, 1080, 1079, 32, 1080, 1079, 1086, 1073, 1088, 1072,
     1078, 1077, 1085, 1080, 1103, 46, 32, 1055, 1086, 1087, 1088, 1086, 1073, 1091,
     1081, 1090, 1077, 32, 1076, 1088, 1091, 1075, 1086, 1077, 32, 1080, 1079, 1086,
     1073, 1088, 1072, 1078, 1077, 1085, 1080, 1077, 32, 1080, 1083, 1080, 32, 1087,
     1088, 1086, 1074, 1077, 1088, 1100, 1090, 1077, 32, 1082, 1072, 1095, 1077, 1089,
     1090, 1074, 1086, 46]"

definition msg_done :: ustring where
  "msg_done = [1043, 1086, 1090, 1086, 1074, 1086, 33]"

definition msg_oom :: ustring where
  "msg_oom = [1054, 1064, 1048, 1041, 1050, 1040, 58, 32, 1053, 1077, 1076, 1086, 1089,
     1090, 1072, 1090, 1086, 1095, 1085, 1086, 32, 1074, 1080, 1076, 1077, 1086, 1087,
     1072, 1084, 1103, 1090, 1080, 33]"

definition msg_error_prefix :: ustring where
  "msg_error_prefix = [1054, 1096, 1080, 1073, 1082, 1072, 58, 32]"

definition title_attention :: ustring where
  "title_attention = [1042, 1085, 1080, 1084, 1072, 1085, 1080, 1077]"

definition title_error :: ustring where
  "title_error = [1054, 1096, 1080, 1073, 1082, 1072]"

definition msg_choose_image :: ustring where
  "msg_choose_image = [1055, 1086, 1078, 1072, 1083, 1091, 1081, 1089, 1090, 1072, 44,
     32, 1074, 1099, 1073, 1077, 1088, 1080, 1090, 1077, 32, 1080, 1079, 1086, 1073,
     1088, 1072, 1078, 1077, 1085, 1080, 1077, 46]"

definition msg_model_not_selected :: ustring where
  "msg_model_not_selected = [1052, 1086, 1076, 1077, 1083, 1100, 32, 1085, 1077, 32,
     1074, 1099, 1073, 1088, 1072, 1085, 1072, 46]"

definition msg_loading_model :: ustring where
  "msg_loading_model = [128260, 32, 1047, 1072, 1075, 1088, 1091, 1079, 1082, 1072, 32,
     1084, 1086, 1076, 1077, 1083, 1080, 46, 46, 46]"

definition msg_load_failed :: ustring where
  "msg_load_failed = [1053, 1077, 32, 1091, 1076, 1072, 1083, 1086, 1089, 1100, 32, 1079,
     1072, 1075, 1088, 1091, 1079, 1080, 1090, 1100, 32, 1084, 1086, 1076, 1077, 1083,
     1100, 46]"

definition msg_enter_prompt :: ustring where
  "msg_enter_prompt = [1055, 1086, 1078, 1072, 1083, 1091, 1081, 1089, 1090, 1072, 44,
     32, 1074, 1074, 1077, 1076, 1080, 1090, 1077, 32, 1087, 1088, 1086, 1084, 1090, 46]"

definition msg_recognized :: ustring where
  "msg_recognized = [93, 32, 1056, 1072, 1089, 1087, 1086, 1079, 1085, 1072, 1085, 32,
     1090, 1077, 1082, 1089, 1090, 58, 10]"

definition msg_model_selected_prefix :: ustring where
  "msg_model_selected_prefix = [9989, 32, 1042, 1099, 1073, 1088, 1072, 1085, 1072, 32,
     1084, 1086, 1076, 1077, 1083, 1100, 58, 32]"

definition msg_model_loaded :: ustring where
  "msg_model_loaded = [9989, 32, 1052, 1086, 1076, 1077, 1083, 1100, 32, 1079, 1072,
     1075, 1088, 1091, 1078, 1077, 1085, 1072, 32, 1091, 1089, 1087, 1077, 1096, 1085,
     1086, 46]"

definition msg_device_prefix :: ustring where
  "msg_device_prefix = [1059, 1089, 1090, 1088, 1086, 1081, 1089, 1090, 1074, 1086, 58,
     32]"

definition msg_quant_prefix :: ustring where
  "msg_quant_prefix = [1052, 1077, 1090, 1086, 1076, 32, 1082, 1074, 1072, 1085, 1090,
     1086, 1074, 1072, 1085, 1080, 1103, 58, 32]"

definition msg_load_error_prefix :: ustring where
  "msg_load_error_prefix = [10060, 32, 1054, 1096, 1080, 1073, 1082, 1072, 32, 1079,
     1072, 1075, 1088, 1091, 1079, 1082, 1080, 58, 32]"

definition msg_file_selected_prefix :: ustring where
  "msg_file_selected_prefix = [9989, 32, 1042, 1099, 1073, 1088, 1072, 1085, 32, 1092,
     1072, 1081, 1083, 58, 32]"

section \<open>Result sanitization (\<open>OCRWorker.run\<close>, lines 121 to 131)\<close>

definition fence_open :: ustring where
  "fence_open = u ''```markdown''"

definition fence_close :: ustring where
  "fence_close = u ''```''"

text \<open>
  \<open>decoded[0].strip() if isinstance(decoded, list) and len(decoded) > 0 else ""\<close>;
  \<open>batch_decode\<close> returns a list of strings.
\<close>

definition first_decoded :: "ustring list \<Rightarrow> ustring" where
  "first_decoded decoded = (case decoded of [] \<Rightarrow> [] | d # _ \<Rightarrow> strip d)"

text \<open>The two \<open>if\<close> statements of lines 124 to 127, on the stripped string.\<close>

definition strip_open :: "ustring \<Rightarrow> ustring" where
  "strip_open r = (if startswith r fence_open then lstrip (drop (length fence_open) r) else r)"

definition strip_close :: "ustring \<Rightarrow> ustring" where
  "strip_close r =
     (if endswith r fence_close then rstrip (take (length r - length fence_close) r) else r)"

definition strip_fences :: "ustring \<Rightarrow> ustring" where
  "strip_fences r = strip_close (strip_open r)"

definition check_empty :: "ustring \<Rightarrow> ustring" where
  "check_empty r = (if length r < 5 then msg_sentinel else r)"

definition sanitize :: "ustring list \<Rightarrow> ustring" where
  "sanitize decoded = check_empty (strip_fences (first_decoded decoded))"

text \<open>
  What the specification calls fence-free: the string neither begins with the opening marker
  nor ends with the closing one.
\<close>

definition fence_free :: "ustring \<Rightarrow> bool" where
  "fence_free r \<longleftrightarrow> \<not> startswith r fence_open \<and> \<not> endswith r fence_close"

definition lclean :: "ustring \<Rightarrow> bool" where
  "lclean s \<longleftrightarrow> s = [] \<or> \<not> is_space (hd s)"

definition rclean :: "ustring \<Rightarrow> bool" where
  "rclean s \<longleftrightarrow> s = [] \<or> \<not> is_space (last s)"

section \<open>Image preparation (\<open>OCRWorker.run\<close>, lines 46 to 54)\<close>

text \<open>
  \<open>ratio = max_size / max(img.size)\<close> is a Python float (IEEE 754 binary64) and
  \<open>int(dim * ratio)\<close> truncates the rounded product. Both operations are modelled exactly on
  integers: a positive double is a pair \<open>(m, s)\<close> standing for \<open>m / 2 ^ s\<close>; division of two
  positive integers and the product of an integer with a double round to 53 significant bits,
  to nearest, ties to even. (Operands below \<open>2 ^ 53\<close>; no overflow or underflow arises for image
  dimensions.)
\<close>

fun bitlen :: "nat \<Rightarrow> nat" where
  "bitlen n = (if n = 0 then 0 else Suc (bitlen (n div 2)))"

definition rne :: "nat \<Rightarrow> nat \<Rightarrow> nat" where
  "rne p q =
     (let d = p div q; r = p mod q
      in if 2 * r < q then d else if q < 2 * r then d + 1 else if even d then d else d + 1)"

definition float_div :: "nat \<Rightarrow> nat \<Rightarrow> nat \<times> nat" where
  "float_div a b =
     (let s0 = 52 + bitlen b - bitlen a;
          s = (if a * 2 ^ s0 < b * 2 ^ 52 then s0 + 1 else s0)
      in (rne (a * 2 ^ s) b, s))"

definition float_mul :: "nat \<Rightarrow> nat \<times> nat \<Rightarrow> nat \<times> nat" where
  "float_mul dim f =
     (let p = dim * fst f; t = bitlen p - 53
      in (rne p (2 ^ t) * 2 ^ t, snd f))"

definition float_trunc :: "nat \<times> nat \<Rightarrow> nat" where
  "float_trunc f = fst f div 2 ^ snd f"

definition max_size :: nat where
  "max_size = 1536"

text \<open>\<open>int(dim * ratio)\<close> with \<open>ratio = max_size / mx\<close>.\<close>

definition scale_dim :: "nat \<Rightarrow> nat \<Rightarrow> nat" where
  "scale_dim mx dim = float_trunc (float_mul dim (float_div max_size mx))"

definition new_size :: "nat \<times> nat \<Rightarrow> nat \<times> nat" where
  "new_size sz = (let mx = max (fst sz) (snd sz) in (scale_dim mx (fst sz), scale_dim mx (snd sz)))"

text \<open>
  What the specification says instead: \<open>round(dim * ratio)\<close>, the exact quotient
  \<open>dim * 1536 / mx\<close> rounded to the nearest integer.
\<close>

definition spec_round_dim :: "nat \<Rightarrow> nat \<Rightarrow> nat" where
  "spec_round_dim mx dim = rne (dim * max_size) mx"

text \<open>
  Python exceptions, with \<open>str(e)\<close> and the text of \<open>traceback.format_exc()\<close>.
  \<open>torch.cuda.OutOfMemoryError\<close> is the class the first handler catches; every other
  subclass of \<open>Exception\<close> is \<open>Exception\<close> here; \<open>BaseException\<close> stands for the classes
  outside \<open>Exception\<close> (\<open>SystemExit\<close>, \<open>KeyboardInterrupt\<close>, \<open>GeneratorExit\<close>), which an
  \<open>except Exception\<close> clause does not catch.
\<close>

datatype exn =
  OutOfMemoryError ustring ustring
| Exception ustring ustring
| BaseException ustring ustring

datatype resample = NEAREST | BILINEAR | BICUBIC | LANCZOS

record image =
  img_mode :: ustring
  img_size :: "nat \<times> nat"

datatype signal = Log ustring | Finished ustring

datatype processor = Processor nat

datatype model = Model nat

record inputs =
  input_ids :: "nat list list"
  shapes_text :: ustring

text \<open>
  The libraries the worker calls. Pillow: opening a file gives an image or raises; \<open>convert\<close>
  and \<open>resize\<close> raise or return the image with the new mode, respectively the new size.
  \<open>prepare_inputs\<close> stands for lines 68 to 86 (chat template, vision preprocessing, the
  processor call, the move to the device and the formatting of the two shapes), between which
  no signal is emitted; \<open>elapsed\<close> is the formatted generation time.
\<close>

record env =
  image_open :: "ustring \<Rightarrow> exn + image"
  convert_error :: "image \<Rightarrow> exn option"
  resize_error :: "image \<Rightarrow> nat \<times> nat \<Rightarrow> resample \<Rightarrow> exn option"
  prepare_inputs :: "processor \<Rightarrow> model \<Rightarrow> image \<Rightarrow> ustring \<Rightarrow> exn + inputs"
  generate :: "model \<Rightarrow> processor \<Rightarrow> inputs \<Rightarrow> exn + nat list list"
  elapsed :: ustring
  batch_decode :: "processor \<Rightarrow> nat list list \<Rightarrow> exn + ustring list"

definition convert :: "env \<Rightarrow> image \<Rightarrow> ustring \<Rightarrow> exn + image" where
  "convert e img m = (case convert_error e img of Some x \<Rightarrow> Inl x | None \<Rightarrow> Inr (img\<lparr>img_mode := m\<rparr>))"

definition resize :: "env \<Rightarrow> image \<Rightarrow> nat \<times> nat \<Rightarrow> resample \<Rightarrow> exn + image" where
  "resize e img sz f =
     (case resize_error e img sz f of Some x \<Rightarrow> Inl x | None \<Rightarrow> Inr (img\<lparr>img_size := sz\<rparr>))"

text \<open>\<open>f"{new_size}"\<close>: the \<open>repr\<close> of a pair of integers.\<close>

definition str_size :: "nat \<times> nat \<Rightarrow> ustring" where
  "str_size sz = u ''('' @ str_nat (fst sz) @ u '', '' @ str_nat (snd sz) @ u '')''"

text \<open>Lines 49 to 54: the resized image and the signals emitted on the way.\<close>

definition shrink :: "env \<Rightarrow> image \<Rightarrow> exn + (image \<times> signal list)" where
  "shrink e img =
     (if max (fst (img_size img)) (snd (img_size img)) > max_size
      then (case resize e img (new_size (img_size img)) LANCZOS of
              Inl x \<Rightarrow> Inl x
            | Inr img' \<Rightarrow> Inr (img', [Log (msg_resized_prefix @ str_size (new_size (img_size img)))]))
      else Inr (img, []))"

text \<open>Lines 46 to 54: \<open>Image.open(path).convert("RGB")\<close>, then the resize.\<close>

definition prepare_image :: "env \<Rightarrow> ustring \<Rightarrow> exn + (image \<times> signal list)" where
  "prepare_image e path =
     (case image_open e path of
        Inl x \<Rightarrow> Inl x
      | Inr raw \<Rightarrow> (case convert e raw (u ''RGB'') of Inl x \<Rightarrow> Inl x | Inr img \<Rightarrow> shrink e img))"

section \<open>The worker (\<open>OCRWorker\<close>)\<close>

record worker =
  w_image_path :: ustring
  w_prompt_text :: ustring
  w_processor :: "processor option"
  w_model :: "model option"

text \<open>Lines 110 to 113: each output sequence without its prompt prefix.\<close>

definition generated_ids :: "nat list list \<Rightarrow> nat list list \<Rightarrow> nat list list" where
  "generated_ids ins outs = map (\<lambda>(in_ids, out_ids). drop (length in_ids) out_ids) (zip ins outs)"

text \<open>
  The body of the \<open>try\<close> block after the entry check: the signals emitted, in order, and the
  exception that ended it, if any.
\<close>

definition try_body :: "env \<Rightarrow> processor \<Rightarrow> model \<Rightarrow> worker \<Rightarrow> signal list \<times> exn option" where
  "try_body e p m w =
     (case prepare_image e (w_image_path w) of
        Inl x \<Rightarrow> ([Log msg_opening], Some x)
      | Inr (img, resized) \<Rightarrow>
     (let l1 = [Log msg_opening] @ resized @ [Log msg_preparing] in
      case prepare_inputs e p m img (w_prompt_text w) of
        Inl x \<Rightarrow> (l1, Some x)
      | Inr inp \<Rightarrow>
     (let l2 = l1 @ [Log (shapes_text inp), Log msg_gen_start] in
      case generate e m p inp of
        Inl x \<Rightarrow> (l2, Some x)
      | Inr outputs \<Rightarrow>
     (let l3 = l2 @ [Log (msg_gen_done_prefix @ elapsed e @ msg_gen_done_suffix)] in
      case batch_decode e p (generated_ids (input_ids inp) outputs) of
        Inl x \<Rightarrow> (l3, Some x)
      | Inr decoded \<Rightarrow> (l3 @ [Finished (sanitize decoded), Log msg_done], None)))))"

text \<open>
  The two \<open>except\<close> clauses of lines 136 to 143: the signals they emit. An exception outside
  \<open>Exception\<close> matches neither clause and leaves \<open>run\<close>; nothing more is emitted.
\<close>

fun handler :: "exn \<Rightarrow> signal list" where
  "handler (OutOfMemoryError s tb) = [Log msg_oom, Finished msg_oom]"
| "handler (Exception s tb) = [Log (msg_error_prefix @ s @ [10] @ tb), Finished []]"
| "handler (BaseException s tb) = []"

fun caught :: "exn \<Rightarrow> bool" where
  "caught (OutOfMemoryError s tb) = True"
| "caught (Exception s tb) = True"
| "caught (BaseException s tb) = False"

text \<open>\<open>OCRWorker.run\<close>: the signals the worker emits, in emission order.\<close>

definition run :: "env \<Rightarrow> worker \<Rightarrow> signal list" where
  "run e w =
     (case (w_processor w, w_model w) of
        (Some p, Some m) \<Rightarrow>
          (case try_body e p m w of (l, None) \<Rightarrow> l | (l, Some x) \<Rightarrow> l @ handler x)
      | _ \<Rightarrow> [Log msg_no_model, Finished msg_internal_error])"

text \<open>The exception that leaves \<open>run\<close> uncaught, if any.\<close>

definition escaping :: "env \<Rightarrow> worker \<Rightarrow> exn option" where
  "escaping e w =
     (case (w_processor w, w_model w) of
        (Some p, Some m) \<Rightarrow>
          (case snd (try_body e p m w) of
             Some x \<Rightarrow> (if caught x then None else Some x)
           | None \<Rightarrow> None)
      | _ \<Rightarrow> None)"

fun is_finished :: "signal \<Rightarrow> bool" where
  "is_finished (Finished r) = True"
| "is_finished (Log m) = False"

text \<open>The run reached line 134: no exception, the model and the processor present.\<close>

definition succeeded :: "env \<Rightarrow> worker \<Rightarrow> bool" where
  "succeeded e w \<longleftrightarrow>
     (case (w_processor w, w_model w) of
        (Some p, Some m) \<Rightarrow> snd (try_body e p m w) = None
      | _ \<Rightarrow> False)"

text \<open>The terminal signal is the last one: the property the specification states.\<close>

definition terminal_last :: "signal list \<Rightarrow> bool" where
  "terminal_last sigs \<longleftrightarrow> sigs \<noteq> [] \<and> is_finished (last sigs)"

text \<open>An environment in which every library call succeeds, for the scenarios below.\<close>

definition scenario_env :: "nat \<times> nat \<Rightarrow> ustring \<Rightarrow> env" where
  "scenario_env sz text =
     \<lparr>image_open = (\<lambda>path. Inr \<lparr>img_mode = u ''RGBA'', img_size = sz\<rparr>),
      convert_error = (\<lambda>img. None),
      resize_error = (\<lambda>img s f. None),
      prepare_inputs = (\<lambda>p m img prompt. Inr \<lparr>input_ids = [[1, 2, 3]], shapes_text = u ''Input''\<rparr>),
      generate = (\<lambda>m p inp. Inr [[1, 2, 3, 4, 5]]),
      elapsed = u ''1.0'',
      batch_decode = (\<lambda>p ids. Inr [text])\<rparr>"

text \<open>The same environment, except that opening the image is interrupted by \<open>SystemExit\<close>.\<close>

definition interrupted_env :: env where
  "interrupted_env =
     (scenario_env (800, 600) (u ''Hello world''))
       \<lparr>image_open := (\<lambda>path. Inl (BaseException (u ''SystemExit'') []))\<rparr>"

definition scenario_worker :: "processor option \<Rightarrow> model option \<Rightarrow> worker" where
  "scenario_worker p m =
     \<lparr>w_image_path = u ''page.png'', w_prompt_text = u ''Extract text'',
      w_processor = p, w_model = m\<rparr>"

section \<open>The main window (\<open>MainWindow\<close>)\<close>

datatype dialog = Warning ustring ustring | Critical ustring ustring

text \<open>
  A \<open>QThread\<close> object of Qt with the worker moved to it. \<open>status\<close> is what the main thread
  sees: the thread runs from \<open>start()\<close> until its event loop has exited, and the object is
  deleted some time after it finished (\<open>finished\<close> is connected to \<open>deleteLater\<close>, line 422).
  \<open>phase\<close> is where the slot \<open>worker.run\<close>, connected to \<open>started\<close>, stands; \<open>emitted\<close> are
  the signals the worker has emitted so far and \<open>remaining\<close> those its run will still emit.
\<close>

datatype qstatus = ThreadRunning | ThreadFinished | ThreadDeleted

datatype phase = NotStarted | InRun | Returned

record qthread =
  status :: qstatus
  phase :: phase
  job :: worker
  emitted :: "signal list"
  remaining :: "signal list"

datatype qt_call = Quit nat | Wait nat | Start nat

text \<open>
  What the main window calls outside \<open>gui.py\<close>: CUDA availability, the two
  \<open>from_pretrained\<close> loaders (the model comes with the text of its device and, when it has the
  attribute, of its quantization method), the clock (\<open>strftime n\<close> is the formatted time of the
  \<open>n\<close>-th reading) and \<open>os.path.basename\<close>. \<open>world\<close> is the environment a worker thread meets
  when it runs while the main thread is blocked in \<open>wait()\<close>.
\<close>

record library =
  cuda_available :: bool
  processor_from_pretrained :: "ustring \<Rightarrow> exn + processor"
  model_from_pretrained :: "ustring \<Rightarrow> exn + (model \<times> ustring \<times> ustring option)"
  strftime :: "nat \<Rightarrow> ustring"
  basename :: "ustring \<Rightarrow> ustring"
  world :: env

text \<open>
  The attributes of \<open>MainWindow\<close> the operations below read or write, the contents of the
  widgets and of the two log files, and a record of the calls that leave the program: message
  boxes shown, model paths loaded, device cache clears, calls on thread objects, and exceptions
  that escaped a slot. The worker's signals are connected to slots of the window, which lives
  in the main thread, so Qt posts each emission to the event queue of the main thread
  (\<open>queue\<close>, with the number of the emitting thread) and the event loop takes them from the
  front; \<open>delivered\<close> is the history of the emissions handled so far.
\<close>

record main_window =
  current_model_path :: "ustring option"
  image_path :: "ustring option"
  processor :: "processor option"
  model :: "model option"
  thread :: "nat option"
  worker :: "worker option"
  combo_model :: "(ustring \<times> ustring) list"
  text_prompt :: ustring
  text_output :: ustring
  text_log :: "ustring list"
  info_log_file :: ustring
  text_log_file :: ustring
  dialogs :: "dialog list"
  threads :: "qthread list"
  qt_calls :: "qt_call list"
  loads :: "ustring list"
  cache_clears :: nat
  clock :: nat
  uncaught :: "exn list"
  queue :: "(nat \<times> signal) list"
  delivered :: "(nat \<times> signal) list"

text \<open>\<open>MainWindow.log\<close>, lines 444 to 452.\<close>

definition log :: "library \<Rightarrow> ustring \<Rightarrow> main_window \<Rightarrow> main_window" where
  "log lib message st =
     (let timestamped_msg = u ''['' @ strftime lib (clock st) @ u ''] '' @ message
      in st\<lparr>text_log := text_log st @ [timestamped_msg],
            info_log_file := info_log_file st @ timestamped_msg @ [10],
            clock := clock st + 1\<rparr>)"

text \<open>\<open>MainWindow.display_result\<close>, lines 437 to 442.\<close>

definition display_result :: "library \<Rightarrow> ustring \<Rightarrow> main_window \<Rightarrow> main_window" where
  "display_result lib result st =
     st\<lparr>text_output := result,
        text_log_file := text_log_file st @ u ''['' @ strftime lib (clock st) @ msg_recognized
          @ result @ [10] @ replicate 50 45 @ [10],
        clock := clock st + 1\<rparr>"

text \<open>The connections of lines 419 and 420: a worker signal arriving in the main thread.\<close>

fun deliver :: "library \<Rightarrow> main_window \<Rightarrow> signal \<Rightarrow> main_window" where
  "deliver lib st (Log message) = log lib message st"
| "deliver lib st (Finished result) = display_result lib result st"

fun exn_text :: "exn \<Rightarrow> ustring" where
  "exn_text (OutOfMemoryError s tb) = s @ [10] @ tb"
| "exn_text (Exception s tb) = s @ [10] @ tb"
| "exn_text (BaseException s tb) = s @ [10] @ tb"

definition empty_cache :: "library \<Rightarrow> main_window \<Rightarrow> main_window" where
  "empty_cache lib st =
     (if cuda_available lib then st\<lparr>cache_clears := cache_clears st + 1\<rparr> else st)"

text \<open>
  The \<open>except Exception\<close> clause of \<open>load_model\<close>, lines 481 to 484: a caught exception is
  logged and \<open>(None, None)\<close> returned; an exception outside \<open>Exception\<close> leaves \<open>load_model\<close>.
\<close>

definition load_failed ::
  "library \<Rightarrow> exn \<Rightarrow> main_window
     \<Rightarrow> (exn + processor option \<times> model option) \<times> main_window" where
  "load_failed lib x st =
     (if caught x then (Inr (None, None), log lib (msg_load_error_prefix @ exn_text x) st)
      else (Inl x, st))"

text \<open>\<open>MainWindow.load_model\<close>, lines 454 to 484.\<close>

definition load_model ::
  "library \<Rightarrow> ustring \<Rightarrow> main_window
     \<Rightarrow> (exn + processor option \<times> model option) \<times> main_window" where
  "load_model lib model_path st0 =
     (let st = st0\<lparr>loads := loads st0 @ [model_path]\<rparr> in
      case processor_from_pretrained lib model_path of
        Inl x \<Rightarrow> load_failed lib x st
      | Inr p \<Rightarrow>
          (let st1 = empty_cache lib st in
           case model_from_pretrained lib model_path of
             Inl x \<Rightarrow> load_failed lib x st1
           | Inr (m, device, quantization_method) \<Rightarrow>
               (let st2 = log lib msg_model_loaded st1;
                    st3 = log lib (msg_device_prefix @ device) st2;
                    st4 = (case quantization_method of
                             None \<Rightarrow> st3
                           | Some q \<Rightarrow> log lib (msg_quant_prefix @ q) st3)
                in (Inr (Some p, Some m), st4))))"

definition show_dialog :: "dialog \<Rightarrow> main_window \<Rightarrow> main_window" where
  "show_dialog d st = st\<lparr>dialogs := dialogs st @ [d]\<rparr>"

definition deleted_error :: exn where
  "deleted_error =
     Exception (u ''Internal C++ object (PySide6.QtCore.QThread) already deleted.'') []"

text \<open>
  Lines 409 to 425: a new thread object, a new worker holding the image path, the prompt and
  the model handle, and \<open>thread.start()\<close>.
\<close>

definition create_worker :: "ustring \<Rightarrow> ustring \<Rightarrow> main_window \<Rightarrow> main_window" where
  "create_worker path prompt_text st =
     (let w = \<lparr>w_image_path = path, w_prompt_text = prompt_text,
                w_processor = processor st, w_model = model st\<rparr>;
          i = length (threads st)
      in st\<lparr>thread := Some i, worker := Some w,
            threads := threads st @ [\<lparr>status = ThreadRunning, phase = NotStarted, job = w,
                                      emitted = [], remaining = []\<rparr>],
            qt_calls := qt_calls st @ [Start i]\<rparr>)"

text \<open>Lines 404 to 425.\<close>

definition check_prompt :: "ustring \<Rightarrow> main_window \<Rightarrow> main_window" where
  "check_prompt path st =
     (let prompt_text = strip (text_prompt st) in
      if prompt_text = [] then show_dialog (Warning title_attention msg_enter_prompt) st
      else create_worker path prompt_text st)"

text \<open>
  What is left of a worker's run when the main thread waits for its thread: the whole run if
  the slot has not been entered yet, the signals still to emit if it is executing, nothing if
  it has returned.
\<close>

definition rest_of_run :: "library \<Rightarrow> qthread \<Rightarrow> signal list" where
  "rest_of_run lib t =
     (case phase t of
        NotStarted \<Rightarrow> run (world lib) (job t)
      | InRun \<Rightarrow> remaining t
      | Returned \<Rightarrow> [])"

text \<open>
  \<open>self.thread.quit(); self.thread.wait()\<close>, lines 401 and 402. \<open>quit()\<close> asks the thread's
  event loop to exit, which it does once the slot it is executing has returned, and \<open>wait()\<close>
  blocks the main thread until the thread has finished: when \<open>wait()\<close> returns, \<open>run\<close> has
  emitted all its signals (they are in the queue of the main thread, which handled no event
  meanwhile) and has returned, and the thread no longer runs.
\<close>

definition quit_and_wait :: "library \<Rightarrow> nat \<Rightarrow> main_window \<Rightarrow> main_window" where
  "quit_and_wait lib i st =
     (let t = threads st ! i; rest = rest_of_run lib t
      in st\<lparr>threads := (threads st)
                [i := t\<lparr>status := ThreadFinished, phase := Returned,
                         emitted := emitted t @ rest, remaining := []\<rparr>],
            queue := queue st @ map (Pair i) rest,
            qt_calls := qt_calls st @ [Quit i, Wait i]\<rparr>)"

text \<open>
  Lines 399 to 402. \<open>isRunning()\<close> on a deleted thread object raises \<open>RuntimeError\<close>, which
  ends the slot.
\<close>

definition stop_previous :: "library \<Rightarrow> ustring \<Rightarrow> main_window \<Rightarrow> main_window" where
  "stop_previous lib path st =
     (case thread st of
        None \<Rightarrow> check_prompt path st
      | Some i \<Rightarrow>
          (if i < length (threads st) then
             (case status (threads st ! i) of
                ThreadDeleted \<Rightarrow> st\<lparr>uncaught := uncaught st @ [deleted_error]\<rparr>
              | ThreadFinished \<Rightarrow> check_prompt path st
              | ThreadRunning \<Rightarrow> check_prompt path (quit_and_wait lib i st))
           else check_prompt path st))"

text \<open>Lines 395 to 425.\<close>

definition dispatch :: "library \<Rightarrow> ustring \<Rightarrow> main_window \<Rightarrow> main_window" where
  "dispatch lib path st = stop_previous lib path (empty_cache lib (st\<lparr>text_output := []\<rparr>))"

text \<open>\<open>MainWindow.start_ocr\<close>, lines 378 to 425.\<close>

definition start_ocr :: "library \<Rightarrow> main_window \<Rightarrow> main_window" where
  "start_ocr lib st =
     (if \<not> truthy (image_path st) then
        show_dialog (Warning title_attention msg_choose_image) st
      else if \<not> truthy (current_model_path st) then
        show_dialog (Critical title_error msg_model_not_selected) st
      else
        (case (image_path st, current_model_path st) of
           (Some path, Some model_path) \<Rightarrow>
             (if processor st = None \<or> model st = None then
                (case load_model lib model_path (log lib msg_loading_model st) of
                   (Inl x, st1) \<Rightarrow> st1\<lparr>uncaught := uncaught st1 @ [x]\<rparr>
                 | (Inr (p, m), st1) \<Rightarrow>
                     (let st2 = st1\<lparr>processor := p, model := m\<rparr> in
                      if p = None \<or> m = None then
                        show_dialog (Critical title_error msg_load_failed) st2
                      else dispatch lib path st2))
              else dispatch lib path st)
         | _ \<Rightarrow> st))"

text \<open>\<open>MainWindow.on_model_changed\<close>, lines 355 to 360; \<open>itemData\<close> of an index out of range is \<open>None\<close>.\<close>

definition item_data :: "(ustring \<times> ustring) list \<Rightarrow> int \<Rightarrow> ustring option" where
  "item_data items index =
     (if 0 \<le> index \<and> nat index < length items then Some (snd (items ! nat index)) else None)"

definition on_model_changed :: "library \<Rightarrow> int \<Rightarrow> main_window \<Rightarrow> main_window" where
  "on_model_changed lib index st =
     (let model_path = item_data (combo_model st) index in
      if truthy model_path then
        (case model_path of
           Some p \<Rightarrow> log lib (msg_model_selected_prefix @ basename lib p)
                      (st\<lparr>current_model_path := model_path\<rparr>)
         | None \<Rightarrow> st)
      else st)"

text \<open>
  \<open>MainWindow.choose_image\<close>, lines 369 to 376; \<open>path\<close> is what the file dialog returned, the
  empty string when it was cancelled.
\<close>

definition choose_image :: "library \<Rightarrow> ustring \<Rightarrow> main_window \<Rightarrow> main_window" where
  "choose_image lib path st =
     (if path \<noteq> [] then
        log lib (msg_file_selected_prefix @ basename lib path) (st\<lparr>image_path := Some path\<rparr>)
      else st)"

definition set_thread :: "nat \<Rightarrow> qthread \<Rightarrow> main_window \<Rightarrow> main_window" where
  "set_thread i t st = st\<lparr>threads := (threads st)[i := t]\<rparr>"

text \<open>
  The event loop of the main thread handles the event at the front of its queue: the slot
  connected to the signal runs (lines 419 and 420).
\<close>

definition deliver_next :: "library \<Rightarrow> main_window \<Rightarrow> main_window" where
  "deliver_next lib st =
     (case queue st of
        [] \<Rightarrow> st
      | ev # rest \<Rightarrow> deliver lib (st\<lparr>queue := rest, delivered := delivered st @ [ev]\<rparr>) (snd ev))"

text \<open>The worker of thread \<open>i\<close> emits its next signal: Qt posts it to the main thread.\<close>

definition emit_next :: "nat \<Rightarrow> main_window \<Rightarrow> main_window" where
  "emit_next i st =
     (let t = threads st ! i in
      case remaining t of
        [] \<Rightarrow> st
      | sig # rest \<Rightarrow>
          st\<lparr>threads := (threads st)[i := t\<lparr>emitted := emitted t @ [sig], remaining := rest\<rparr>],
             queue := queue st @ [(i, sig)]\<rparr>)"

text \<open>
  One step of the application: a slot of the main window runs in the main thread (it runs to
  its end before the next event is handled), the user edits the prompt, the main thread
  handles the next queued worker signal, a started thread enters \<open>worker.run\<close> (in some
  environment, which fixes the signals that run emits), the worker emits its next signal,
  \<open>worker.run\<close> returns, or a finished thread object is deleted.
\<close>

inductive step :: "main_window \<Rightarrow> main_window \<Rightarrow> bool" where
  run_clicked: "step st (start_ocr lib st)"
| model_changed: "step st (on_model_changed lib index st)"
| image_chosen: "step st (choose_image lib path st)"
| prompt_edited: "step st (st\<lparr>text_prompt := t\<rparr>)"
| signal_delivered: "queue st \<noteq> [] \<Longrightarrow> step st (deliver_next lib st)"
| run_entered:
    "i < length (threads st) \<Longrightarrow> status (threads st ! i) = ThreadRunning \<Longrightarrow>
     phase (threads st ! i) = NotStarted \<Longrightarrow>
     step st (set_thread i
       ((threads st ! i)\<lparr>phase := InRun, remaining := run e (job (threads st ! i))\<rparr>) st)"
| signal_emitted:
    "i < length (threads st) \<Longrightarrow> phase (threads st ! i) = InRun \<Longrightarrow>
     remaining (threads st ! i) \<noteq> [] \<Longrightarrow> step st (emit_next i st)"
| run_returned:
    "i < length (threads st) \<Longrightarrow> phase (threads st ! i) = InRun \<Longrightarrow>
     remaining (threads st ! i) = [] \<Longrightarrow>
     step st (set_thread i ((threads st ! i)\<lparr>phase := Returned\<rparr>) st)"
| thread_deleted:
    "i < length (threads st) \<Longrightarrow> status (threads st ! i) = ThreadFinished \<Longrightarrow>
     step st (set_thread i ((threads st ! i)\<lparr>status := ThreadDeleted\<rparr>) st)"

text \<open>\<open>MainWindow.__init__\<close>, lines 154 to 168, with the models found by \<open>populate_model_combo\<close>.\<close>

definition init_window :: "(ustring \<times> ustring) list \<Rightarrow> ustring \<Rightarrow> main_window" where
  "init_window models prompt =
     \<lparr>current_model_path = (case models of [] \<Rightarrow> None | m # _ \<Rightarrow> Some (snd m)),
      image_path = None, processor = None, model = None, thread = None, worker = None,
      combo_model = models, text_prompt = prompt, text_output = [], text_log = [],
      info_log_file = [], text_log_file = [], dialogs = [], threads = [], qt_calls = [],
      loads = [], cache_clears = 0, clock = 0, uncaught = [], queue = [], delivered = []\<rparr>"

inductive reachable :: "main_window \<Rightarrow> bool" where
  start: "reachable (init_window models prompt)"
| next_step: "reachable st \<Longrightarrow> step st st' \<Longrightarrow> reachable st'"

text \<open>The workers executing \<open>run\<close>.\<close>

definition in_run :: "main_window \<Rightarrow> nat \<Rightarrow> bool" where
  "in_run st i \<longleftrightarrow> i < length (threads st) \<and> phase (threads st ! i) = InRun"

text \<open>A library in which every call succeeds, for the scenarios below.\<close>

definition scenario_library :: library where
  "scenario_library =
     \<lparr>cuda_available = True,
      processor_from_pretrained = (\<lambda>path. Inr (Processor (length path))),
      model_from_pretrained = (\<lambda>path. Inr (Model (length path), u ''cuda:0'', None)),
      strftime = (\<lambda>n. u ''12:00:00''),
      basename = (\<lambda>path. path),
      world = scenario_env (800, 600) (u ''Hello world'')\<rparr>"

text \<open>
  The invariant of the thread objects: a thread that no longer runs has left \<open>run\<close>, only the
  thread the window refers to can be running, and the window refers to a thread that exists.
\<close>

definition thread_inv :: "main_window \<Rightarrow> bool" where
  "thread_inv st \<longleftrightarrow>
     (\<forall>i<length (threads st).
        (status (threads st ! i) \<noteq> ThreadRunning \<longrightarrow> phase (threads st ! i) = Returned) \<and>
        (thread st \<noteq> Some i \<longrightarrow> status (threads st ! i) \<noteq> ThreadRunning)) \<and>
     (\<forall>i. thread st = Some i \<longrightarrow> i < length (threads st))"

text \<open>
  The invariant of a loaded model handle \<open>(p, m)\<close>: the window holds it, no further load has
  happened, and every worker created from thread number \<open>n\<close> on was given it.
\<close>

definition handle_inv ::
  "processor \<Rightarrow> model \<Rightarrow> ustring list \<Rightarrow> nat \<Rightarrow> main_window \<Rightarrow> bool" where
  "handle_inv p m ls n st \<longleftrightarrow>
     processor st = Some p \<and> model st = Some m \<and> loads st = ls \<and> n \<le> length (threads st) \<and>
     (\<forall>i. n \<le> i \<and> i < length (threads st) \<longrightarrow>
        w_processor (job (threads st ! i)) = Some p \<and> w_model (job (threads st ! i)) = Some m)"

text \<open>The signals of thread \<open>i\<close> among queued or handled events, in their order.\<close>

definition signals_of :: "nat \<Rightarrow> (nat \<times> signal) list \<Rightarrow> signal list" where
  "signals_of i evs = map snd (filter (\<lambda>ev. fst ev = i) evs)"

text \<open>
  The invariant of signal delivery: the signals of a worker that were handled, followed by
  those still queued, are the signals it has emitted, in emission order; every event comes
  from an existing thread; a worker that has entered \<open>run\<close> emits the signals of one run of its
  job, and none are left once it has returned.
\<close>

definition delivery_inv :: "main_window \<Rightarrow> bool" where
  "delivery_inv st \<longleftrightarrow>
     (\<forall>i<length (threads st).
        signals_of i (delivered st @ queue st) = emitted (threads st ! i) \<and>
        (phase (threads st ! i) = Returned \<longrightarrow> remaining (threads st ! i) = []) \<and>
        (phase (threads st ! i) = NotStarted \<longrightarrow>
           emitted (threads st ! i) = [] \<and> remaining (threads st ! i) = []) \<and>
        (phase (threads st ! i) \<noteq> NotStarted \<longrightarrow>
           (\<exists>e. emitted (threads st ! i) @ remaining (threads st ! i)
                  = run e (job (threads st ! i))))) \<and>
     (\<forall>ev\<in>set (delivered st @ queue st). fst ev < length (threads st))"

text \<open>
  Scenario states. Two models are installed, the user has chosen an image
  (\<open>scenario_selected\<close>) and clicked run (\<open>scenario_first\<close>); the first worker
  (\<open>scenario_job\<close>) has entered \<open>run\<close> (\<open>scenario_running\<close>), emitted its seven signals
  (\<open>scenario_signals\<close>) and returned (\<open>scenario_returned\<close>), and the main thread has handled
  them (\<open>scenario_answered\<close>).
\<close>

definition scenario_job :: worker where
  "scenario_job =
     \<lparr>w_image_path = u ''page.png'', w_prompt_text = u ''Extract text'',
      w_processor = Some (Processor 10), w_model = Some (Model 10)\<rparr>"

definition scenario_signals :: "signal list" where
  "scenario_signals =
     [Log msg_opening, Log msg_preparing, Log (u ''Input''), Log msg_gen_start,
      Log (msg_gen_done_prefix @ u ''1.0'' @ msg_gen_done_suffix),
      Finished (u ''Hello world''), Log msg_done]"

definition scenario_models :: "(ustring \<times> ustring) list" where
  "scenario_models = [(u ''m1'', u ''/models/m1''), (u ''m2'', u ''/models/m2'')]"

definition scenario_selected :: main_window where
  "scenario_selected =
     choose_image scenario_library (u ''page.png'')
       (init_window scenario_models (u ''Extract text''))"

definition scenario_first :: main_window where
  "scenario_first = start_ocr scenario_library scenario_selected"

definition scenario_running :: main_window where
  "scenario_running =
     set_thread 0
       ((threads scenario_first ! 0)
          \<lparr>phase := InRun,
           remaining := run (world scenario_library) (job (threads scenario_first ! 0))\<rparr>)
       scenario_first"

definition scenario_returned :: main_window where
  "scenario_returned =
     set_thread 0
       ((threads ((emit_next 0 ^^ 7) scenario_running) ! 0)\<lparr>phase := Returned\<rparr>)
       ((emit_next 0 ^^ 7) scenario_running)"

definition scenario_answered :: main_window where
  "scenario_answered = (deliver_next scenario_library ^^ 7) scenario_returned"


section \<open>Properties of the sanitization step\<close>

lemma fence_open_val: "fence_open = [96, 96, 96, 109, 97, 114, 107, 100, 111, 119, 110]"
  by (simp add: fence_open_def u_def)

lemma fence_close_val: "fence_close = [96, 96, 96]"
  by (simp add: fence_close_def u_def)

lemmas sanitize_eval =
  sanitize_def check_empty_def strip_fences_def strip_open_def strip_close_def
  first_decoded_def strip_def lstrip_def rstrip_def startswith_def endswith_def
  fence_open_val fence_close_val u_def is_space_def

lemma rstrip_decomp: "s = rstrip s @ rev (takeWhile is_space (rev s))"
proof -
  have "rev s = takeWhile is_space (rev s) @ dropWhile is_space (rev s)" by simp
  then have "s = rev (dropWhile is_space (rev s)) @ rev (takeWhile is_space (rev s))"
    by (metis rev_append rev_rev_ident)
  then show ?thesis by (simp add: rstrip_def)
qed

lemma lstrip_lclean: "lclean (lstrip s)"
  unfolding lclean_def lstrip_def by (metis hd_dropWhile)

lemma rstrip_rclean: "rclean (rstrip s)"
  unfolding rclean_def rstrip_def
  by (metis hd_dropWhile last_rev rev_is_Nil_conv)

lemma lstrip_keeps_rclean:
  assumes "rclean s"
  shows "rclean (lstrip s)"
proof -
  have "s = takeWhile is_space s @ dropWhile is_space s" by simp
  then have "dropWhile is_space s \<noteq> [] \<Longrightarrow> last (dropWhile is_space s) = last s"
    by (metis last_appendR)
  moreover have "s = [] \<Longrightarrow> dropWhile is_space s = []" by simp
  ultimately show ?thesis using assms unfolding rclean_def lstrip_def by metis
qed

lemma rstrip_keeps_lclean:
  assumes "lclean s"
  shows "lclean (rstrip s)"
proof -
  have "rstrip s \<noteq> [] \<Longrightarrow> hd (rstrip s) = hd s"
    using rstrip_decomp [of s] by (metis hd_append2)
  moreover have "s = [] \<Longrightarrow> rstrip s = []" by (simp add: rstrip_def)
  ultimately show ?thesis using assms unfolding lclean_def by metis
qed

lemma lstrip_id: "lclean s \<Longrightarrow> lstrip s = s"
  unfolding lclean_def lstrip_def by (cases s) auto

lemma rstrip_id: "rclean s \<Longrightarrow> rstrip s = s"
  unfolding rclean_def rstrip_def by (cases s rule: rev_cases) auto

lemma strip_clean: "lclean (strip s) \<and> rclean (strip s)"
  by (simp add: strip_def rstrip_rclean rstrip_keeps_lclean lstrip_lclean)

lemma strip_id: "lclean s \<Longrightarrow> rclean s \<Longrightarrow> strip s = s"
  by (simp add: strip_def lstrip_id rstrip_id)

lemma drop_keeps_rclean: "rclean s \<Longrightarrow> rclean (drop n s)"
  unfolding rclean_def by (auto simp: last_drop)

lemma take_keeps_lclean: "lclean s \<Longrightarrow> lclean (take n s)"
  unfolding lclean_def by (cases s; cases n) auto

lemma strip_open_clean:
  "lclean r \<Longrightarrow> rclean r \<Longrightarrow> lclean (strip_open r) \<and> rclean (strip_open r)"
  by (simp add: strip_open_def lstrip_lclean lstrip_keeps_rclean drop_keeps_rclean)

lemma strip_close_clean:
  "lclean r \<Longrightarrow> rclean r \<Longrightarrow> lclean (strip_close r) \<and> rclean (strip_close r)"
  by (simp add: strip_close_def rstrip_rclean rstrip_keeps_lclean take_keeps_lclean)

lemma strip_fences_clean:
  "lclean r \<Longrightarrow> rclean r \<Longrightarrow> lclean (strip_fences r) \<and> rclean (strip_fences r)"
  by (simp add: strip_fences_def strip_open_clean strip_close_clean)

lemma first_decoded_clean: "lclean (first_decoded d) \<and> rclean (first_decoded d)"
proof (cases d)
  case Nil
  then show ?thesis by (simp add: first_decoded_def lclean_def rclean_def)
next
  case (Cons a list)
  then show ?thesis using strip_clean [of a] by (simp add: first_decoded_def)
qed

lemma sentinel_clean: "lclean msg_sentinel \<and> rclean msg_sentinel \<and> length msg_sentinel = 100"
  by (simp add: msg_sentinel_def lclean_def rclean_def is_space_def)

lemma strip_open_decomp:
  "\<exists>ws. r = (if startswith r fence_open then fence_open else []) @ ws @ strip_open r \<and>
     (\<forall>c\<in>set ws. is_space c)"
proof (cases "startswith r fence_open")
  case True
  let ?d = "drop (length fence_open) r"
  have 1: "fence_open @ ?d = r"
    using True unfolding startswith_def by (metis append_take_drop_id)
  have 2: "takeWhile is_space ?d @ strip_open r = ?d"
    using True by (simp add: strip_open_def lstrip_def)
  have 3: "\<forall>c\<in>set (takeWhile is_space ?d). is_space c"
    by (meson set_takeWhileD)
  have "r = (if startswith r fence_open then fence_open else [])
      @ takeWhile is_space ?d @ strip_open r"
    using True 1 2 by simp
  with 3 show ?thesis by blast
next
  case False
  then have "r = (if startswith r fence_open then fence_open else []) @ [] @ strip_open r"
    by (simp add: strip_open_def)
  moreover have "\<forall>c\<in>set ([]::nat list). is_space c" by simp
  ultimately show ?thesis by blast
qed

lemma strip_close_decomp:
  "\<exists>ws. r = strip_close r @ ws @ (if endswith r fence_close then fence_close else []) \<and>
     (\<forall>c\<in>set ws. is_space c)"
proof (cases "endswith r fence_close")
  case True
  let ?t = "take (length r - length fence_close) r"
  let ?ws = "rev (takeWhile is_space (rev ?t))"
  have 1: "?t @ fence_close = r"
    using True unfolding endswith_def by (metis append_take_drop_id)
  have "rstrip ?t @ ?ws = ?t" using rstrip_decomp [of ?t] by simp
  then have 2: "strip_close r @ ?ws = ?t"
    using True by (simp add: strip_close_def)
  have 3: "\<forall>c\<in>set ?ws. is_space c"
    by (metis set_rev set_takeWhileD)
  have "(strip_close r @ ?ws) @ fence_close = r" using 1 2 by simp
  then have "r = strip_close r @ ?ws @ (if endswith r fence_close then fence_close else [])"
    using True by simp
  with 3 show ?thesis by blast
next
  case False
  then have "r = strip_close r @ [] @ (if endswith r fence_close then fence_close else [])"
    by (simp add: strip_close_def)
  moreover have "\<forall>c\<in>set ([]::nat list). is_space c" by simp
  ultimately show ?thesis by blast
qed

lemma strip_fences_decomp:
  "\<exists>ws1 ws2. r = (if startswith r fence_open then fence_open else []) @ ws1 @ strip_fences r @ ws2
       @ (if endswith (strip_open r) fence_close then fence_close else []) \<and>
     (\<forall>c\<in>set ws1. is_space c) \<and> (\<forall>c\<in>set ws2. is_space c)"
proof -
  let ?pre = "if startswith r fence_open then fence_open else []"
  let ?suf = "if endswith (strip_open r) fence_close then fence_close else []"
  obtain ws1 where a: "r = ?pre @ ws1 @ strip_open r" "\<forall>c\<in>set ws1. is_space c"
    using strip_open_decomp by blast
  obtain ws2 where b: "strip_open r = strip_close (strip_open r) @ ws2 @ ?suf"
    "\<forall>c\<in>set ws2. is_space c"
    using strip_close_decomp by blast
  have c: "strip_close (strip_open r) = strip_fences r" by (simp add: strip_fences_def)
  have "r = ?pre @ ws1 @ strip_fences r @ ws2 @ ?suf"
    by (rule trans [OF a(1)], subst b(1), subst c) (rule refl)
  with a(2) b(2) show ?thesis by blast
qed

text \<open>
  Claim C6, as amended. For every decoded batch the sanitization step returns the sentinel
  message when the text left after stripping the fences has fewer than 5 characters, and that
  text otherwise; the result is never empty, has at least 5 characters and carries no leading
  or trailing whitespace. Only one leading and one trailing marker are removed, so the result
  may still begin with the opening marker or end with the closing one.
\<close>

theorem sanitize_result:
  "sanitize d = (if length (strip_fences (first_decoded d)) < 5 then msg_sentinel
                 else strip_fences (first_decoded d))
   \<and> 5 \<le> length (sanitize d) \<and> sanitize d \<noteq> [] \<and> strip (sanitize d) = sanitize d"
proof -
  let ?r = "strip_fences (first_decoded d)"
  have c: "lclean ?r \<and> rclean ?r"
    using first_decoded_clean strip_fences_clean by blast
  have s: "sanitize d = (if length ?r < 5 then msg_sentinel else ?r)"
    by (simp add: sanitize_def check_empty_def)
  have l: "5 \<le> length (sanitize d)" using s sentinel_clean by auto
  have "lclean (sanitize d) \<and> rclean (sanitize d)" using s c sentinel_clean by auto
  then have "strip (sanitize d) = sanitize d" by (simp add: strip_id)
  with s l show ?thesis by auto
qed

theorem sanitize_result_witness:
  "sanitize [u ''abc```''] = msg_sentinel \<and> sanitize [u '' Hello  ''] = u ''Hello''
   \<and> strip (sanitize [u '' Hello  '']) = sanitize [u '' Hello  '']"
  using sanitize_result [of "[u ''abc```'']"] sanitize_result [of "[u '' Hello  '']"]
  by (simp add: sanitize_eval)

text \<open>
  The claim as stated fails: for a fenced document that ends with a code block, only the outer
  closing marker is removed, so the result still ends with the marker of the inner block; it
  is neither fence-free nor the sentinel.
\<close>

theorem sanitize_not_fence_free:
  "\<not> ((sanitize [u ''```markdown'' @ [10] @ u ''```'' @ [10] @ u ''x = 1'' @ [10]
                  @ u ''```'' @ [10] @ u ''```''] \<noteq> []
        \<and> strip (sanitize [u ''```markdown'' @ [10] @ u ''```'' @ [10] @ u ''x = 1'' @ [10]
                  @ u ''```'' @ [10] @ u ''```''])
            = sanitize [u ''```markdown'' @ [10] @ u ''```'' @ [10] @ u ''x = 1'' @ [10]
                  @ u ''```'' @ [10] @ u ''```'']
        \<and> fence_free (sanitize [u ''```markdown'' @ [10] @ u ''```'' @ [10] @ u ''x = 1''
                  @ [10] @ u ''```'' @ [10] @ u ''```''])
        \<and> 5 \<le> length (sanitize [u ''```markdown'' @ [10] @ u ''```'' @ [10] @ u ''x = 1''
                  @ [10] @ u ''```'' @ [10] @ u ''```'']))
       \<or> sanitize [u ''```markdown'' @ [10] @ u ''```'' @ [10] @ u ''x = 1'' @ [10]
                  @ u ''```'' @ [10] @ u ''```''] = msg_sentinel)"
proof -
  have r: "sanitize [u ''```markdown'' @ [10] @ u ''```'' @ [10] @ u ''x = 1'' @ [10]
                  @ u ''```'' @ [10] @ u ''```'']
      = [96, 96, 96, 10, 120, 32, 61, 32, 49, 10, 96, 96, 96]"
    by (simp add: sanitize_eval)
  have "\<not> fence_free [96, 96, 96, 10, 120, 32, 61, 32, 49, 10, 96, 96, 96]"
    by (simp add: fence_free_def endswith_def fence_close_val)
  moreover have "[96, 96, 96, 10, 120, 32, 61, 32, 49, 10, 96, 96, 96] \<noteq> msg_sentinel"
    by (simp add: msg_sentinel_def)
  ultimately show ?thesis unfolding r by simp
qed

text \<open>
  Claim C7. After the initial \<open>strip\<close>, fence stripping removes exactly: the opening marker
  when the text begins with it, the whitespace that follows it, the closing marker when the
  remaining text ends with it, and the whitespace before it; everything else stays, in place.
  The result has no surrounding whitespace. A text that neither begins with the opening marker
  nor ends with the closing one is unchanged, whatever its interior contains. The text of
  scenario 2 is sanitized to \<open>Hello\<close>.
\<close>

theorem fence_stripping:
  "(\<exists>ws1 ws2.
      strip s = (if startswith (strip s) fence_open then fence_open else []) @ ws1
        @ strip_fences (strip s) @ ws2
        @ (if endswith (strip_open (strip s)) fence_close then fence_close else [])
      \<and> (\<forall>c\<in>set ws1. is_space c) \<and> (\<forall>c\<in>set ws2. is_space c))
   \<and> strip (strip_fences (strip s)) = strip_fences (strip s)
   \<and> (\<not> startswith (strip s) fence_open \<and> \<not> endswith (strip s) fence_close
        \<longrightarrow> strip_fences (strip s) = strip s)
   \<and> sanitize [[32] @ u ''```markdown'' @ [10] @ u ''Hello'' @ [10] @ u ''```'' @ [32]]
        = u ''Hello''"
proof -
  have "lclean (strip_fences (strip s)) \<and> rclean (strip_fences (strip s))"
    using strip_clean strip_fences_clean by blast
  then have a: "strip (strip_fences (strip s)) = strip_fences (strip s)"
    by (simp add: strip_id)
  have b: "\<not> startswith (strip s) fence_open \<and> \<not> endswith (strip s) fence_close
        \<longrightarrow> strip_fences (strip s) = strip s"
    by (simp add: strip_fences_def strip_open_def strip_close_def)
  have c: "sanitize [[32] @ u ''```markdown'' @ [10] @ u ''Hello'' @ [10] @ u ''```'' @ [32]]
        = u ''Hello''"
    by (simp add: sanitize_eval)
  show ?thesis using strip_fences_decomp [of "strip s"] a b c by blast
qed

theorem fence_stripping_witness:
  "\<not> startswith (strip (u '' Hello ```markdown world'')) fence_open
   \<and> \<not> endswith (strip (u '' Hello ```markdown world'')) fence_close
   \<and> strip_fences (strip (u '' Hello ```markdown world'')) = u ''Hello ```markdown world''"
  using fence_stripping [of "u '' Hello ```markdown world''"]
  by (simp add: sanitize_eval)

section \<open>Properties of the worker\<close>

lemma shrink_logs: "shrink e img = Inr (img', l) \<Longrightarrow> \<forall>s\<in>set l. \<not> is_finished s"
  by (auto simp: shrink_def split: if_splits sum.splits)

lemma prepare_image_logs:
  "prepare_image e path = Inr (img', l) \<Longrightarrow> \<forall>s\<in>set l. \<not> is_finished s"
  unfolding prepare_image_def using shrink_logs by (auto split: sum.splits)

lemma try_body_cases:
  "(\<exists>pre r. try_body e p m w = (pre @ [Finished r, Log msg_done], None)
       \<and> (\<forall>s\<in>set pre. \<not> is_finished s))
   \<or> (\<exists>pre x. try_body e p m w = (pre, Some x) \<and> (\<forall>s\<in>set pre. \<not> is_finished s))"
proof (cases "prepare_image e (w_image_path w)")
  case (Inl x)
  then show ?thesis by (simp add: try_body_def)
next
  case (Inr a)
  obtain img l where a: "a = (img, l)" by (cases a)
  have l: "\<forall>s\<in>set l. \<not> is_finished s" using Inr a prepare_image_logs by blast
  show ?thesis using Inr a l
    by (auto simp: try_body_def Let_def split: sum.splits)
qed

lemma handler_caught: "caught x \<Longrightarrow> \<exists>a b. handler x = [Log a, Finished b]"
  by (cases x) simp_all

lemma handler_uncaught: "\<not> caught x \<Longrightarrow> handler x = []"
  by (cases x) simp_all

lemma run_shape_caught:
  assumes "escaping e w = None"
  shows "\<exists>pre r post. run e w = pre @ [Finished r] @ post \<and> (\<forall>s\<in>set pre. \<not> is_finished s) \<and>
     (if succeeded e w then post = [Log msg_done] else post = [])"
proof (cases "w_processor w")
  case None
  then have "run e w = [Log msg_no_model] @ [Finished msg_internal_error] @ []"
    "\<not> succeeded e w"
    by (simp_all add: run_def succeeded_def)
  then show ?thesis
    by (metis is_finished.simps(2) list.set(1) list.set(2) empty_iff insert_iff)
next
  case p: (Some p)
  show ?thesis
  proof (cases "w_model w")
    case None
    then have "run e w = [Log msg_no_model] @ [Finished msg_internal_error] @ []"
      "\<not> succeeded e w"
      using p by (simp_all add: run_def succeeded_def)
    then show ?thesis
      by (metis is_finished.simps(2) list.set(1) list.set(2) empty_iff insert_iff)
  next
    case m: (Some m)
    from try_body_cases [of e p m w] show ?thesis
    proof
      assume "\<exists>pre r. try_body e p m w = (pre @ [Finished r, Log msg_done], None)
        \<and> (\<forall>s\<in>set pre. \<not> is_finished s)"
      then obtain pre r where t: "try_body e p m w = (pre @ [Finished r, Log msg_done], None)"
        and l: "\<forall>s\<in>set pre. \<not> is_finished s" by blast
      have "run e w = pre @ [Finished r] @ [Log msg_done]" "succeeded e w"
        using p m t by (simp_all add: run_def succeeded_def)
      with l show ?thesis by auto
    next
      assume "\<exists>pre x. try_body e p m w = (pre, Some x) \<and> (\<forall>s\<in>set pre. \<not> is_finished s)"
      then obtain pre x where t: "try_body e p m w = (pre, Some x)"
        and l: "\<forall>s\<in>set pre. \<not> is_finished s" by blast
      have "caught x" using assms p m t by (simp add: escaping_def split: if_splits)
      then obtain a b where h: "handler x = [Log a, Finished b]"
        using handler_caught by blast
      have "run e w = (pre @ [Log a]) @ [Finished b] @ []" "\<not> succeeded e w"
        using p m t h by (simp_all add: run_def succeeded_def)
      moreover have "\<forall>s\<in>set (pre @ [Log a]). \<not> is_finished s" using l by auto
      ultimately show ?thesis by (metis (full_types))
    qed
  qed
qed

lemma run_shape_escaping:
  assumes "escaping e w = Some x"
  shows "\<not> caught x \<and> (\<forall>s\<in>set (run e w). \<not> is_finished s) \<and> \<not> succeeded e w"
proof -
  obtain p m where pm: "w_processor w = Some p" "w_model w = Some m"
    using assms by (auto simp: escaping_def split: option.splits)
  have s: "snd (try_body e p m w) = Some x" and c: "\<not> caught x"
    using assms pm by (auto simp: escaping_def split: option.splits if_splits)
  from try_body_cases [of e p m w] s obtain pre where
    t: "try_body e p m w = (pre, Some x)" and l: "\<forall>s\<in>set pre. \<not> is_finished s"
    by auto
  have "run e w = pre" using pm t c by (simp add: run_def handler_uncaught)
  moreover have "\<not> succeeded e w" using pm s by (simp add: succeeded_def)
  ultimately show ?thesis using c l by simp
qed

lemmas run_eval =
  run_def try_body_def prepare_image_def shrink_def convert_def resize_def
  scenario_env_def scenario_worker_def max_size_def

text \<open>
  Claim C1, as amended. An invocation of \<open>run\<close> emits exactly one \<open>finished\<close> signal whenever
  no exception leaves it: when the model or the processor is missing, when the pipeline
  succeeds, when the device runs out of memory and when any other subclass of \<open>Exception\<close> is
  raised. An exception outside \<open>Exception\<close> raised inside the \<open>try\<close> block is caught by neither
  \<open>except\<close> clause: it leaves \<open>run\<close>, and then no \<open>finished\<close> signal is emitted. Never more than
  one is emitted.
\<close>

theorem run_terminal_count:
  "length (filter is_finished (run e w)) = (if escaping e w = None then 1 else 0)
   \<and> (\<forall>x. escaping e w = Some x \<longrightarrow> \<not> caught x)"
proof (cases "escaping e w")
  case None
  then obtain pre r post where a: "run e w = pre @ [Finished r] @ post"
    "\<forall>s\<in>set pre. \<not> is_finished s" "post = [Log msg_done] \<or> post = []"
    using run_shape_caught [of e w] by (metis (full_types))
  have "filter is_finished pre = []" using a(2) by (simp add: filter_empty_conv)
  moreover have "filter is_finished post = []" using a(3) by auto
  ultimately show ?thesis using a(1) None by simp
next
  case (Some x)
  then have "\<not> caught x" "\<forall>s\<in>set (run e w). \<not> is_finished s"
    using run_shape_escaping by blast+
  then have "\<not> caught x" "filter is_finished (run e w) = []"
    by (simp_all add: filter_empty_conv)
  then show ?thesis using Some by simp
qed

theorem run_terminal_count_witness:
  "escaping (scenario_env (800, 600) (u ''Hello world''))
       (scenario_worker (Some (Processor 0)) (Some (Model 0))) = None
   \<and> length (filter is_finished (run (scenario_env (800, 600) (u ''Hello world''))
       (scenario_worker (Some (Processor 0)) (Some (Model 0))))) = 1
   \<and> escaping interrupted_env (scenario_worker (Some (Processor 0)) (Some (Model 0)))
       = Some (BaseException (u ''SystemExit'') [])
   \<and> \<not> caught (BaseException (u ''SystemExit'') [])"
proof -
  have a: "escaping (scenario_env (800, 600) (u ''Hello world''))
       (scenario_worker (Some (Processor 0)) (Some (Model 0))) = None"
    by (simp add: escaping_def run_eval)
  have b: "escaping interrupted_env (scenario_worker (Some (Processor 0)) (Some (Model 0)))
       = Some (BaseException (u ''SystemExit'') [])"
    by (simp add: escaping_def interrupted_env_def run_eval)
  show ?thesis
    using run_terminal_count [of "scenario_env (800, 600) (u ''Hello world'')"
        "scenario_worker (Some (Processor 0)) (Some (Model 0))"]
      run_terminal_count [of interrupted_env
        "scenario_worker (Some (Processor 0)) (Some (Model 0))"] a b
    by simp
qed

text \<open>
  The claim as stated fails: when opening the image is interrupted by \<open>SystemExit\<close>, \<open>run\<close>
  emits one log signal and no \<open>finished\<close> signal.
\<close>

theorem run_without_terminal:
  "run interrupted_env (scenario_worker (Some (Processor 0)) (Some (Model 0)))
     = [Log msg_opening]
   \<and> length (filter is_finished
        (run interrupted_env (scenario_worker (Some (Processor 0)) (Some (Model 0))))) = 0"
  by (simp add: interrupted_env_def run_eval)

text \<open>
  Claim C4, as amended. When the model or the processor is absent, \<open>run\<close> emits one diagnostic
  log line and then, as its only terminal signal, the fixed internal-error message, which is
  not the empty string.
\<close>

theorem run_without_model:
  "w_processor w = None \<or> w_model w = None \<Longrightarrow>
   run e w = [Log msg_no_model, Finished msg_internal_error] \<and> msg_internal_error \<noteq> []"
  by (auto simp: run_def msg_internal_error_def split: option.splits)

theorem run_without_model_witness:
  "(w_processor (scenario_worker None (Some (Model 0))) = None
      \<or> w_model (scenario_worker None (Some (Model 0))) = None)
   \<and> run (scenario_env (800, 600) (u ''Hello world'')) (scenario_worker None (Some (Model 0)))
       = [Log msg_no_model, Finished msg_internal_error]"
  using run_without_model [of "scenario_worker None (Some (Model 0))"
      "scenario_env (800, 600) (u ''Hello world'')"]
  by (simp add: scenario_worker_def)

text \<open>The claim as stated fails: the terminal signal of this path is not the empty string.\<close>

theorem terminal_not_empty:
  "Finished [] \<notin> set (run (scenario_env (800, 600) (u ''Hello world''))
        (scenario_worker None (Some (Model 0))))"
  by (simp add: run_def scenario_worker_def msg_internal_error_def)

section \<open>Properties of the image preparation\<close>

lemma float_div_2000: "float_div max_size 2000 = (6917529027641082, 53)"
  by (simp add: float_div_def max_size_def rne_def Let_def)

lemma bitlen_2000_2000: "bitlen 13835058055282164000 = 64"
  by simp

lemma scale_dim_2000_2000: "scale_dim 2000 2000 = 1536"
  by (simp add: scale_dim_def float_div_2000 float_mul_def float_trunc_def rne_def Let_def
      bitlen_2000_2000 del: bitlen.simps)

lemma bitlen_2000_1001: "bitlen 6924446556668723082 = 63"
  by simp

lemma scale_dim_2000_1001: "scale_dim 2000 1001 = 768"
  by (simp add: scale_dim_def float_div_2000 float_mul_def float_trunc_def rne_def Let_def
      bitlen_2000_1001 del: bitlen.simps)

lemma float_div_2073: "float_div max_size 2073 = (6673930562123571, 53)"
  by (simp add: float_div_def max_size_def rne_def Let_def)

lemma bitlen_2073_2073: "bitlen 13835058055282162683 = 64"
  by simp

lemma scale_dim_2073_2073: "scale_dim 2073 2073 = 1535"
  by (simp add: scale_dim_def float_div_2073 float_mul_def float_trunc_def rne_def Let_def
      bitlen_2073_2073 del: bitlen.simps)

lemma str_size_768: "str_size (1536, 768) = u ''(1536, 768)''"
  by (simp add: str_size_def u_def)

lemma str_size_1535: "str_size (1535, 1535) = u ''(1535, 1535)''"
  by (simp add: str_size_def u_def)

text \<open>
  Claim C5, as amended. When the file opens and converts, the image is converted to RGB; if
  \<open>max(width, height) \<le> 1536\<close> both dimensions are unchanged and nothing else happens; if
  \<open>max(width, height) > 1536\<close> the image is resized with the LANCZOS filter to
  \<open>int(dim * ratio)\<close> on each axis independently, \<open>ratio = 1536 / max(width, height)\<close>: the
  double-precision product truncated, not rounded.
\<close>

theorem prepare_image_result:
  assumes "image_open e path = Inr raw" and "convert_error e raw = None"
  shows "prepare_image e path =
     (let img = raw\<lparr>img_mode := u ''RGB''\<rparr>;
          w = fst (img_size raw); h = snd (img_size raw); mx = max w h
      in if mx \<le> 1536 then Inr (img, [])
         else (case resize_error e img (scale_dim mx w, scale_dim mx h) LANCZOS of
                 Some x \<Rightarrow> Inl x
               | None \<Rightarrow>
                   Inr (img\<lparr>img_size := (scale_dim mx w, scale_dim mx h)\<rparr>,
                        [Log (msg_resized_prefix
                                @ str_size (scale_dim mx w, scale_dim mx h))])))"
proof -
  let ?img = "raw\<lparr>img_mode := u ''RGB''\<rparr>"
  let ?mx = "max (fst (img_size raw)) (snd (img_size raw))"
  have sz: "img_size ?img = img_size raw" by simp
  have p: "prepare_image e path = shrink e ?img"
    using assms by (simp add: prepare_image_def convert_def)
  show ?thesis
  proof (cases "?mx \<le> 1536")
    case True
    then have "\<not> max_size < ?mx" unfolding max_size_def by linarith
    then have "shrink e ?img = Inr (?img, [])"
      unfolding shrink_def sz by (simp only: if_False)
    then show ?thesis using p True by (simp add: Let_def)
  next
    case False
    then have "max_size < ?mx" unfolding max_size_def by linarith
    then have "shrink e ?img =
       (case resize e ?img (new_size (img_size raw)) LANCZOS of
          Inl x \<Rightarrow> Inl x
        | Inr img' \<Rightarrow> Inr (img', [Log (msg_resized_prefix @ str_size (new_size (img_size raw)))]))"
      unfolding shrink_def sz by (simp only: if_True)
    then show ?thesis using p False
      by (simp add: resize_def new_size_def Let_def split: option.splits)
  qed
qed

theorem prepare_image_result_witness:
  "image_open (scenario_env (2073, 2073) []) (u ''page.png'')
     = Inr \<lparr>img_mode = u ''RGBA'', img_size = (2073, 2073)\<rparr>
   \<and> convert_error (scenario_env (2073, 2073) [])
        \<lparr>img_mode = u ''RGBA'', img_size = (2073, 2073)\<rparr> = None
   \<and> prepare_image (scenario_env (2073, 2073) []) (u ''page.png'')
     = Inr (\<lparr>img_mode = u ''RGB'', img_size = (1535, 1535)\<rparr>,
            [Log (msg_resized_prefix @ u ''(1535, 1535)'')])"
proof -
  have o: "image_open (scenario_env (2073, 2073) []) (u ''page.png'')
     = Inr \<lparr>img_mode = u ''RGBA'', img_size = (2073, 2073)\<rparr>"
    by (simp add: scenario_env_def)
  have c: "convert_error (scenario_env (2073, 2073) [])
        \<lparr>img_mode = u ''RGBA'', img_size = (2073, 2073)\<rparr> = None"
    by (simp add: scenario_env_def)
  have r: "\<And>img sz f. resize_error (scenario_env (2073, 2073) []) img sz f = None"
    by (simp add: scenario_env_def)
  show ?thesis
    using prepare_image_result [OF o c] o c
    by (simp add: r scale_dim_2073_2073 str_size_1535 del: bitlen.simps)
qed

text \<open>
  The claim as stated fails: a 2000 by 1001 image is resized to 1536 by 768, while
  \<open>1001 * 1536 / 2000 = 768.768\<close> rounds to 769.
\<close>

theorem resize_truncates:
  "prepare_image (scenario_env (2000, 1001) []) (u ''page.png'')
     = Inr (\<lparr>img_mode = u ''RGB'', img_size = (1536, 768)\<rparr>,
            [Log (msg_resized_prefix @ u ''(1536, 768)'')])
   \<and> (spec_round_dim 2000 2000, spec_round_dim 2000 1001) = (1536, 769)"
proof -
  have "new_size (2000, 1001) = (1536, 768)"
    by (simp add: new_size_def scale_dim_2000_2000 scale_dim_2000_1001 del: bitlen.simps)
  then have "prepare_image (scenario_env (2000, 1001) []) (u ''page.png'')
     = Inr (\<lparr>img_mode = u ''RGB'', img_size = (1536, 768)\<rparr>,
            [Log (msg_resized_prefix @ u ''(1536, 768)'')])"
    by (simp add: prepare_image_def convert_def shrink_def resize_def max_size_def
        scenario_env_def str_size_768 del: bitlen.simps)
  moreover have "(spec_round_dim 2000 2000, spec_round_dim 2000 1001) = (1536, 769)"
    by (simp add: spec_round_dim_def max_size_def rne_def Let_def)
  ultimately show ?thesis by simp
qed

section \<open>Properties of the main window\<close>

lemma log_frame:
  "threads (log lib msg st) = threads st" "thread (log lib msg st) = thread st"
  "qt_calls (log lib msg st) = qt_calls st" "processor (log lib msg st) = processor st"
  "model (log lib msg st) = model st" "loads (log lib msg st) = loads st"
  "text_log_file (log lib msg st) = text_log_file st" "clock (log lib msg st) = clock st + 1"
  "image_path (log lib msg st) = image_path st" "text_prompt (log lib msg st) = text_prompt st"
  "current_model_path (log lib msg st) = current_model_path st"
  "queue (log lib msg st) = queue st" "delivered (log lib msg st) = delivered st"
  by (simp_all add: log_def Let_def)

lemma display_result_frame:
  "threads (display_result lib r st) = threads st" "thread (display_result lib r st) = thread st"
  "qt_calls (display_result lib r st) = qt_calls st"
  "processor (display_result lib r st) = processor st"
  "model (display_result lib r st) = model st" "loads (display_result lib r st) = loads st"
  "queue (display_result lib r st) = queue st"
  "delivered (display_result lib r st) = delivered st"
  by (simp_all add: display_result_def)

lemma deliver_frame:
  "threads (deliver lib st sig) = threads st" "thread (deliver lib st sig) = thread st"
  "qt_calls (deliver lib st sig) = qt_calls st" "processor (deliver lib st sig) = processor st"
  "model (deliver lib st sig) = model st" "loads (deliver lib st sig) = loads st"
  "queue (deliver lib st sig) = queue st" "delivered (deliver lib st sig) = delivered st"
  by (cases sig; simp add: log_frame display_result_frame)+

lemma show_dialog_frame:
  "threads (show_dialog d st) = threads st" "thread (show_dialog d st) = thread st"
  "qt_calls (show_dialog d st) = qt_calls st" "processor (show_dialog d st) = processor st"
  "model (show_dialog d st) = model st" "loads (show_dialog d st) = loads st"
  "queue (show_dialog d st) = queue st" "delivered (show_dialog d st) = delivered st"
  by (simp_all add: show_dialog_def)

lemma empty_cache_frame:
  "threads (empty_cache lib st) = threads st" "thread (empty_cache lib st) = thread st"
  "qt_calls (empty_cache lib st) = qt_calls st" "processor (empty_cache lib st) = processor st"
  "model (empty_cache lib st) = model st" "loads (empty_cache lib st) = loads st"
  "text_prompt (empty_cache lib st) = text_prompt st"
  "queue (empty_cache lib st) = queue st" "delivered (empty_cache lib st) = delivered st"
  by (simp_all add: empty_cache_def)

lemma load_failed_frame:
  "threads (snd (load_failed lib x st)) = threads st"
  "thread (snd (load_failed lib x st)) = thread st"
  "qt_calls (snd (load_failed lib x st)) = qt_calls st"
  "queue (snd (load_failed lib x st)) = queue st"
  "delivered (snd (load_failed lib x st)) = delivered st"
  by (simp_all add: load_failed_def log_frame)

lemma load_model_frame:
  "threads (snd (load_model lib path st)) = threads st"
  "thread (snd (load_model lib path st)) = thread st"
  "qt_calls (snd (load_model lib path st)) = qt_calls st"
  "queue (snd (load_model lib path st)) = queue st"
  "delivered (snd (load_model lib path st)) = delivered st"
  by (simp_all add: load_model_def Let_def log_frame empty_cache_frame load_failed_frame
      split: sum.splits prod.splits option.splits)

lemma on_model_changed_frame:
  "threads (on_model_changed lib i st) = threads st"
  "thread (on_model_changed lib i st) = thread st"
  "qt_calls (on_model_changed lib i st) = qt_calls st"
  "processor (on_model_changed lib i st) = processor st"
  "model (on_model_changed lib i st) = model st" "loads (on_model_changed lib i st) = loads st"
  "queue (on_model_changed lib i st) = queue st"
  "delivered (on_model_changed lib i st) = delivered st"
  by (simp_all add: on_model_changed_def Let_def log_frame split: option.splits)

lemma choose_image_frame:
  "threads (choose_image lib p st) = threads st" "thread (choose_image lib p st) = thread st"
  "qt_calls (choose_image lib p st) = qt_calls st"
  "processor (choose_image lib p st) = processor st"
  "model (choose_image lib p st) = model st" "loads (choose_image lib p st) = loads st"
  "queue (choose_image lib p st) = queue st" "delivered (choose_image lib p st) = delivered st"
  by (simp_all add: choose_image_def log_frame)

text \<open>
  Claim C10. Whatever payload the \<open>finished\<close> signal carries, \<open>display_result\<close> appends to
  the recognized-text log one entry: the timestamp, the payload and a line of 50 dashes. This
  includes the empty string of the generic exception handler and the out-of-memory message:
  delivering the signals of either handler adds exactly that entry.
\<close>

theorem display_result_logs_every_payload:
  "text_log_file (deliver lib st (Finished r))
     = text_log_file st @ u ''['' @ strftime lib (clock st) @ msg_recognized @ r @ [10]
         @ replicate 50 45 @ [10]
   \<and> text_log_file (foldl (deliver lib) st (handler (Exception s tb)))
     = text_log_file st @ u ''['' @ strftime lib (clock st + 1) @ msg_recognized @ [] @ [10]
         @ replicate 50 45 @ [10]
   \<and> text_log_file (foldl (deliver lib) st (handler (OutOfMemoryError s tb)))
     = text_log_file st @ u ''['' @ strftime lib (clock st + 1) @ msg_recognized @ msg_oom @ [10]
         @ replicate 50 45 @ [10]"
  by (simp add: display_result_def log_frame)

lemma thread_inv_frame:
  "threads st' = threads st \<Longrightarrow> thread st' = thread st \<Longrightarrow> thread_inv st' = thread_inv st"
  by (simp add: thread_inv_def)

lemma thread_invI:
  assumes "\<And>i. i < length (threads st) \<Longrightarrow> status (threads st ! i) \<noteq> ThreadRunning
             \<Longrightarrow> phase (threads st ! i) = Returned"
    and "\<And>i. i < length (threads st) \<Longrightarrow> thread st \<noteq> Some i
             \<Longrightarrow> status (threads st ! i) \<noteq> ThreadRunning"
    and "\<And>i. thread st = Some i \<Longrightarrow> i < length (threads st)"
  shows "thread_inv st"
  unfolding thread_inv_def using assms by blast

lemma thread_inv_returned:
  "thread_inv st \<Longrightarrow> i < length (threads st) \<Longrightarrow> status (threads st ! i) \<noteq> ThreadRunning
     \<Longrightarrow> phase (threads st ! i) = Returned"
  unfolding thread_inv_def by blast

lemma thread_inv_other:
  "thread_inv st \<Longrightarrow> i < length (threads st) \<Longrightarrow> thread st \<noteq> Some i
     \<Longrightarrow> status (threads st ! i) \<noteq> ThreadRunning"
  unfolding thread_inv_def by blast

lemma thread_inv_current:
  "thread_inv st \<Longrightarrow> thread st = Some i \<Longrightarrow> i < length (threads st)"
  unfolding thread_inv_def by blast

lemma create_worker_fields:
  "threads (create_worker path pr st)
     = threads st @ [\<lparr>status = ThreadRunning, phase = NotStarted,
         job = \<lparr>w_image_path = path, w_prompt_text = pr,
                 w_processor = processor st, w_model = model st\<rparr>,
         emitted = [], remaining = []\<rparr>]"
  "thread (create_worker path pr st) = Some (length (threads st))"
  "qt_calls (create_worker path pr st) = qt_calls st @ [Start (length (threads st))]"
  "processor (create_worker path pr st) = processor st"
  "model (create_worker path pr st) = model st"
  "loads (create_worker path pr st) = loads st"
  "queue (create_worker path pr st) = queue st"
  "delivered (create_worker path pr st) = delivered st"
  by (simp_all add: create_worker_def Let_def)

lemma create_worker_inv:
  assumes inv: "thread_inv st"
    and stopped: "\<And>i. thread st = Some i \<Longrightarrow> status (threads st ! i) \<noteq> ThreadRunning"
  shows "thread_inv (create_worker path pr st)"
proof (rule thread_invI)
  let ?st = "create_worker path pr st"
  let ?n = "length (threads st)"
  have old: "\<And>i. i < ?n \<Longrightarrow> status (threads st ! i) \<noteq> ThreadRunning"
    using inv stopped thread_inv_other by blast
  have nth_old: "\<And>i. i < ?n \<Longrightarrow> threads ?st ! i = threads st ! i"
    by (simp add: create_worker_fields nth_append)
  have nth_new: "status (threads ?st ! ?n) = ThreadRunning"
    by (simp add: create_worker_fields)
  have len: "length (threads ?st) = Suc ?n" by (simp add: create_worker_fields)
  fix i
  {
    assume "i < length (threads ?st)" "status (threads ?st ! i) \<noteq> ThreadRunning"
    then have "i < ?n" using len nth_new by (cases "i = ?n") auto
    then show "phase (threads ?st ! i) = Returned"
      using nth_old old inv thread_inv_returned by simp
  next
    assume "i < length (threads ?st)" "thread ?st \<noteq> Some i"
    then have "i < ?n" using len by (simp add: create_worker_fields)
    then show "status (threads ?st ! i) \<noteq> ThreadRunning" using nth_old old by simp
  next
    assume "thread ?st = Some i"
    then show "i < length (threads ?st)" using len by (simp add: create_worker_fields)
  }
qed

lemma show_dialog_inv: "thread_inv (show_dialog d st) = thread_inv st"
  by (rule thread_inv_frame) (simp_all add: show_dialog_frame)

lemma log_inv: "thread_inv (log lib msg st) = thread_inv st"
  by (rule thread_inv_frame) (simp_all add: log_frame)

lemma deliver_inv: "thread_inv (deliver lib st sig) = thread_inv st"
  by (rule thread_inv_frame) (simp_all add: deliver_frame)

lemma empty_cache_inv: "thread_inv (empty_cache lib st) = thread_inv st"
  by (rule thread_inv_frame) (simp_all add: empty_cache_frame)

lemma on_model_changed_inv: "thread_inv (on_model_changed lib i st) = thread_inv st"
  by (rule thread_inv_frame) (simp_all add: on_model_changed_frame)

lemma choose_image_inv: "thread_inv (choose_image lib p st) = thread_inv st"
  by (rule thread_inv_frame) (simp_all add: choose_image_frame)

lemma load_model_inv: "thread_inv (snd (load_model lib p st)) = thread_inv st"
  by (rule thread_inv_frame) (simp_all add: load_model_frame)

lemma check_prompt_inv:
  assumes "thread_inv st"
    and "\<And>i. thread st = Some i \<Longrightarrow> status (threads st ! i) \<noteq> ThreadRunning"
  shows "thread_inv (check_prompt path st)"
proof (cases "strip (text_prompt st) = []")
  case True
  then have "check_prompt path st = show_dialog (Warning title_attention msg_enter_prompt) st"
    by (simp add: check_prompt_def)
  then show ?thesis using assms(1) by (simp add: show_dialog_inv)
next
  case False
  then have "check_prompt path st = create_worker path (strip (text_prompt st)) st"
    by (simp add: check_prompt_def)
  moreover have "thread_inv (create_worker path (strip (text_prompt st)) st)"
    using assms by (rule create_worker_inv)
  ultimately show ?thesis by simp
qed

lemma quit_and_wait_fields:
  "threads (quit_and_wait lib i st) =
     (threads st)[i := (threads st ! i)
        \<lparr>status := ThreadFinished, phase := Returned,
         emitted := emitted (threads st ! i) @ rest_of_run lib (threads st ! i),
         remaining := []\<rparr>]"
  "thread (quit_and_wait lib i st) = thread st"
  "qt_calls (quit_and_wait lib i st) = qt_calls st @ [Quit i, Wait i]"
  "queue (quit_and_wait lib i st) = queue st @ map (Pair i) (rest_of_run lib (threads st ! i))"
  "delivered (quit_and_wait lib i st) = delivered st"
  "processor (quit_and_wait lib i st) = processor st"
  "model (quit_and_wait lib i st) = model st"
  "loads (quit_and_wait lib i st) = loads st"
  "text_prompt (quit_and_wait lib i st) = text_prompt st"
  by (simp_all add: quit_and_wait_def Let_def)

lemma stopped_inv:
  assumes inv: "thread_inv st" and cur: "thread st = Some i"
  shows "thread_inv (quit_and_wait lib i st)"
proof (rule thread_invI)
  let ?st = "quit_and_wait lib i st"
  have lt: "i < length (threads st)" using inv cur by (rule thread_inv_current)
  fix j
  {
    assume a: "j < length (threads ?st)" "status (threads ?st ! j) \<noteq> ThreadRunning"
    show "phase (threads ?st ! j) = Returned"
    proof (cases "j = i")
      case True
      then show ?thesis using lt by (simp add: quit_and_wait_fields)
    next
      case False
      then show ?thesis using a inv thread_inv_returned [of st j]
        by (simp add: quit_and_wait_fields)
    qed
  next
    assume a: "j < length (threads ?st)" "thread ?st \<noteq> Some j"
    then have "j \<noteq> i" using cur by (simp add: quit_and_wait_fields)
    then show "status (threads ?st ! j) \<noteq> ThreadRunning"
      using a inv thread_inv_other [of st j] by (simp add: quit_and_wait_fields)
  next
    assume "thread ?st = Some j"
    then show "j < length (threads ?st)" using cur lt by (simp add: quit_and_wait_fields)
  }
qed

lemma stop_previous_inv:
  assumes "thread_inv st"
  shows "thread_inv (stop_previous lib path st)"
proof (cases "thread st")
  case None
  then have "thread_inv (check_prompt path st)" using assms by (intro check_prompt_inv) simp_all
  then show ?thesis using None by (simp add: stop_previous_def)
next
  case (Some i)
  have lt: "i < length (threads st)" using assms Some by (rule thread_inv_current)
  show ?thesis
  proof (cases "status (threads st ! i)")
    case ThreadRunning
    let ?st = "quit_and_wait lib i st"
    have "thread_inv ?st" using assms Some by (rule stopped_inv)
    moreover have "\<And>j. thread ?st = Some j \<Longrightarrow> status (threads ?st ! j) \<noteq> ThreadRunning"
      using Some lt by (simp add: quit_and_wait_fields)
    ultimately have "thread_inv (check_prompt path ?st)" by (rule check_prompt_inv)
    then show ?thesis using Some lt ThreadRunning by (simp add: stop_previous_def)
  next
    case ThreadFinished
    have "thread_inv (check_prompt path st)"
    proof (rule check_prompt_inv [OF assms])
      fix j assume "thread st = Some j"
      then show "status (threads st ! j) \<noteq> ThreadRunning" using Some ThreadFinished by simp
    qed
    then show ?thesis using Some lt ThreadFinished by (simp add: stop_previous_def)
  next
    case ThreadDeleted
    then have "stop_previous lib path st = st\<lparr>uncaught := uncaught st @ [deleted_error]\<rparr>"
      using Some lt by (simp add: stop_previous_def)
    moreover have "thread_inv (st\<lparr>uncaught := uncaught st @ [deleted_error]\<rparr>) = thread_inv st"
      by (rule thread_inv_frame) simp_all
    ultimately show ?thesis using assms by simp
  qed
qed

lemma dispatch_inv:
  assumes "thread_inv st"
  shows "thread_inv (dispatch lib path st)"
proof -
  have "thread_inv (st\<lparr>text_output := []\<rparr>) = thread_inv st"
    by (rule thread_inv_frame) simp_all
  then have "thread_inv (empty_cache lib (st\<lparr>text_output := []\<rparr>))"
    using assms by (simp add: empty_cache_inv)
  then show ?thesis unfolding dispatch_def by (rule stop_previous_inv)
qed

text \<open>The branches of \<open>start_ocr\<close>, one lemma each.\<close>

lemma start_ocr_no_image:
  "\<not> truthy (image_path st) \<Longrightarrow>
   start_ocr lib st = show_dialog (Warning title_attention msg_choose_image) st"
  by (simp add: start_ocr_def)

lemma start_ocr_no_model_path:
  "truthy (image_path st) \<Longrightarrow> \<not> truthy (current_model_path st) \<Longrightarrow>
   start_ocr lib st = show_dialog (Critical title_error msg_model_not_selected) st"
  by (simp add: start_ocr_def)

lemma start_ocr_loaded:
  "image_path st = Some path \<Longrightarrow> path \<noteq> [] \<Longrightarrow> truthy (current_model_path st) \<Longrightarrow>
   processor st \<noteq> None \<Longrightarrow> model st \<noteq> None \<Longrightarrow>
   start_ocr lib st = dispatch lib path st"
  by (auto simp: start_ocr_def truthy_def split: option.splits)

lemma start_ocr_load:
  "image_path st = Some path \<Longrightarrow> path \<noteq> [] \<Longrightarrow> current_model_path st = Some mp \<Longrightarrow>
   mp \<noteq> [] \<Longrightarrow> processor st = None \<or> model st = None \<Longrightarrow>
   load_model lib mp (log lib msg_loading_model st) = (Inr (p, m), st1) \<Longrightarrow>
   start_ocr lib st =
     (if p = None \<or> m = None
      then show_dialog (Critical title_error msg_load_failed) (st1\<lparr>processor := p, model := m\<rparr>)
      else dispatch lib path (st1\<lparr>processor := p, model := m\<rparr>))"
  by (simp add: start_ocr_def truthy_def Let_def)

lemma start_ocr_load_escapes:
  "image_path st = Some path \<Longrightarrow> path \<noteq> [] \<Longrightarrow> current_model_path st = Some mp \<Longrightarrow>
   mp \<noteq> [] \<Longrightarrow> processor st = None \<or> model st = None \<Longrightarrow>
   load_model lib mp (log lib msg_loading_model st) = (Inl x, st1) \<Longrightarrow>
   start_ocr lib st = st1\<lparr>uncaught := uncaught st1 @ [x]\<rparr>"
  by (simp add: start_ocr_def truthy_def Let_def)

lemma truthy_Some: "truthy x \<Longrightarrow> \<exists>s. x = Some s \<and> s \<noteq> []"
  by (cases x) (simp_all add: truthy_def)

lemma start_ocr_inv:
  assumes inv: "thread_inv st"
  shows "thread_inv (start_ocr lib st)"
proof (cases "truthy (image_path st)")
  case False
  then show ?thesis using inv by (simp add: start_ocr_no_image show_dialog_inv)
next
  case img: True
  show ?thesis
  proof (cases "truthy (current_model_path st)")
    case False
    then show ?thesis using inv img by (simp add: start_ocr_no_model_path show_dialog_inv)
  next
    case mdl: True
    obtain path where path: "image_path st = Some path" "path \<noteq> []"
      using img truthy_Some by blast
    obtain mp where mp: "current_model_path st = Some mp" "mp \<noteq> []"
      using mdl truthy_Some by blast
    show ?thesis
    proof (cases "processor st = None \<or> model st = None")
      case False
      then have "start_ocr lib st = dispatch lib path st"
        using path mdl by (intro start_ocr_loaded) simp_all
      then show ?thesis using inv by (simp add: dispatch_inv)
    next
      case True
      obtain r st1 where l: "load_model lib mp (log lib msg_loading_model st) = (r, st1)"
        by (metis surj_pair)
      have i1: "thread_inv st1"
        using load_model_inv [of lib mp "log lib msg_loading_model st"] l inv
        by (simp add: log_inv)
      show ?thesis
      proof (cases r)
        case (Inl x)
        then have "start_ocr lib st = st1\<lparr>uncaught := uncaught st1 @ [x]\<rparr>"
          using path mp True l by (intro start_ocr_load_escapes) simp_all
        moreover have "thread_inv (st1\<lparr>uncaught := uncaught st1 @ [x]\<rparr>) = thread_inv st1"
          by (rule thread_inv_frame) simp_all
        ultimately show ?thesis using i1 by simp
      next
        case (Inr pm)
        obtain p m where pm: "pm = (p, m)" by (cases pm)
        let ?st2 = "st1\<lparr>processor := p, model := m\<rparr>"
        have "thread_inv ?st2 = thread_inv st1" by (rule thread_inv_frame) simp_all
        then have i2: "thread_inv ?st2" using i1 by simp
        have "start_ocr lib st =
           (if p = None \<or> m = None then show_dialog (Critical title_error msg_load_failed) ?st2
            else dispatch lib path ?st2)"
          using path mp True l Inr pm by (intro start_ocr_load) simp_all
        then show ?thesis using i2 by (simp add: show_dialog_inv dispatch_inv)
      qed
    qed
  qed
qed

lemma set_thread_fields:
  "threads (set_thread i t st) = (threads st)[i := t]" "thread (set_thread i t st) = thread st"
  "processor (set_thread i t st) = processor st" "model (set_thread i t st) = model st"
  "loads (set_thread i t st) = loads st" "queue (set_thread i t st) = queue st"
  "delivered (set_thread i t st) = delivered st"
  by (simp_all add: set_thread_def)

lemma deliver_next_frame:
  "threads (deliver_next lib st) = threads st" "thread (deliver_next lib st) = thread st"
  "processor (deliver_next lib st) = processor st" "model (deliver_next lib st) = model st"
  "loads (deliver_next lib st) = loads st"
  by (simp_all add: deliver_next_def deliver_frame split: list.splits)

lemma deliver_next_queue:
  "queue st = ev # rest \<Longrightarrow>
   queue (deliver_next lib st) = rest \<and> delivered (deliver_next lib st) = delivered st @ [ev]"
  by (simp add: deliver_next_def deliver_frame)

lemma emit_next_fields:
  assumes "remaining (threads st ! i) = sig # rest"
  shows "threads (emit_next i st) =
      (threads st)[i := (threads st ! i)
         \<lparr>emitted := emitted (threads st ! i) @ [sig], remaining := rest\<rparr>]"
    "thread (emit_next i st) = thread st" "queue (emit_next i st) = queue st @ [(i, sig)]"
    "delivered (emit_next i st) = delivered st" "processor (emit_next i st) = processor st"
    "model (emit_next i st) = model st" "loads (emit_next i st) = loads st"
  using assms by (simp_all add: emit_next_def Let_def)

lemma in_run_running:
  assumes "thread_inv st" "i < length (threads st)" "phase (threads st ! i) = InRun"
  shows "status (threads st ! i) = ThreadRunning \<and> thread st = Some i"
proof -
  have r: "status (threads st ! i) = ThreadRunning"
    using assms thread_inv_returned [of st i] by auto
  then have "thread st = Some i" using assms thread_inv_other [of st i] by auto
  with r show ?thesis by simp
qed

lemma thread_inv_update:
  assumes inv: "thread_inv st" and lt: "i < length (threads st)"
    and cur: "thread st' = thread st" and upd: "threads st' = (threads st)[i := t]"
    and st: "status t = status (threads st ! i)"
    and ph: "status t \<noteq> ThreadRunning \<Longrightarrow> phase t = Returned"
  shows "thread_inv st'"
proof (rule thread_invI)
  fix j
  {
    assume a: "j < length (threads st')" "status (threads st' ! j) \<noteq> ThreadRunning"
    show "phase (threads st' ! j) = Returned"
    proof (cases "j = i")
      case True
      then show ?thesis using a lt upd ph by simp
    next
      case False
      then show ?thesis using a upd inv thread_inv_returned [of st j] by simp
    qed
  next
    assume a: "j < length (threads st')" "thread st' \<noteq> Some j"
    then have "status (threads st ! j) \<noteq> ThreadRunning"
      using inv cur upd thread_inv_other [of st j] by simp
    then show "status (threads st' ! j) \<noteq> ThreadRunning"
      using a upd st by (cases "j = i") simp_all
  next
    assume "thread st' = Some j"
    then show "j < length (threads st')"
      using inv cur upd thread_inv_current [of st j] by simp
  }
qed

lemma set_thread_deleted_inv:
  assumes inv: "thread_inv st" and lt: "i < length (threads st)"
    and fin: "status (threads st ! i) = ThreadFinished"
  shows "thread_inv (set_thread i ((threads st ! i)\<lparr>status := ThreadDeleted\<rparr>) st)"
proof (rule thread_invI)
  let ?st = "set_thread i ((threads st ! i)\<lparr>status := ThreadDeleted\<rparr>) st"
  have ret: "phase (threads st ! i) = Returned"
    using inv lt fin thread_inv_returned [of st i] by simp
  fix j
  {
    assume a: "j < length (threads ?st)" "status (threads ?st ! j) \<noteq> ThreadRunning"
    show "phase (threads ?st ! j) = Returned"
    proof (cases "j = i")
      case True
      then show ?thesis using lt ret by (simp add: set_thread_fields)
    next
      case False
      then show ?thesis using a inv thread_inv_returned [of st j] by (simp add: set_thread_fields)
    qed
  next
    assume a: "j < length (threads ?st)" "thread ?st \<noteq> Some j"
    then have "status (threads st ! j) \<noteq> ThreadRunning"
      using inv thread_inv_other [of st j] by (simp add: set_thread_fields)
    then show "status (threads ?st ! j) \<noteq> ThreadRunning"
      using a by (cases "j = i") (simp_all add: set_thread_fields)
  next
    assume "thread ?st = Some j"
    then show "j < length (threads ?st)"
      using inv thread_inv_current [of st j] by (simp add: set_thread_fields)
  }
qed

lemma step_inv: "step st st' \<Longrightarrow> thread_inv st \<Longrightarrow> thread_inv st'"
proof (induction rule: step.induct)
  case (run_clicked st lib)
  then show ?case by (rule start_ocr_inv)
next
  case (model_changed st lib index)
  then show ?case by (simp add: on_model_changed_inv)
next
  case (image_chosen st lib path)
  then show ?case by (simp add: choose_image_inv)
next
  case (prompt_edited st t)
  have "thread_inv (st\<lparr>text_prompt := t\<rparr>) = thread_inv st" by (rule thread_inv_frame) simp_all
  then show ?case using prompt_edited by simp
next
  case (signal_delivered st lib)
  have "thread_inv (deliver_next lib st) = thread_inv st"
    by (rule thread_inv_frame) (simp_all add: deliver_next_frame)
  then show ?case using signal_delivered by simp
next
  case (run_entered i st e)
  from run_entered(4) run_entered(1) show ?case
    by (rule thread_inv_update [where t = "(threads st ! i)
          \<lparr>phase := InRun, remaining := run e (job (threads st ! i))\<rparr>"])
      (simp_all add: set_thread_fields run_entered(2))
next
  case (signal_emitted i st)
  obtain sig rest where r: "remaining (threads st ! i) = sig # rest"
    using signal_emitted(3) by (cases "remaining (threads st ! i)") auto
  have run: "status (threads st ! i) = ThreadRunning"
    using in_run_running [of st i] signal_emitted by simp
  from signal_emitted(4) signal_emitted(1) show ?case
    by (rule thread_inv_update [where t = "(threads st ! i)
          \<lparr>emitted := emitted (threads st ! i) @ [sig], remaining := rest\<rparr>"])
      (simp_all add: emit_next_fields [OF r] run)
next
  case (run_returned i st)
  from run_returned(4) run_returned(1) show ?case
    by (rule thread_inv_update [where t = "(threads st ! i)\<lparr>phase := Returned\<rparr>"])
      (simp_all add: set_thread_fields)
next
  case (thread_deleted i st)
  then show ?case by (simp add: set_thread_deleted_inv)
qed

lemma reachable_inv: "reachable st \<Longrightarrow> thread_inv st"
proof (induction rule: reachable.induct)
  case (start models prompt)
  show ?case by (rule thread_invI) (simp_all add: init_window_def)
next
  case (next_step st st')
  then show ?case using step_inv by blast
qed

lemma check_prompt_cases:
  "check_prompt path s = show_dialog (Warning title_attention msg_enter_prompt) s
   \<or> (\<exists>pr. check_prompt path s = create_worker path pr s)"
proof (cases "strip (text_prompt s) = []")
  case True
  then show ?thesis by (simp add: check_prompt_def)
next
  case False
  then have "check_prompt path s = create_worker path (strip (text_prompt s)) s"
    by (simp add: check_prompt_def)
  then show ?thesis by blast
qed

lemma stop_previous_running:
  "thread st = Some i \<Longrightarrow> i < length (threads st) \<Longrightarrow>
   status (threads st ! i) = ThreadRunning \<Longrightarrow>
   stop_previous lib path st = check_prompt path (quit_and_wait lib i st)"
  by (simp add: stop_previous_def)

lemma dispatch_running:
  assumes cur: "thread st = Some i" and lt: "i < length (threads st)"
    and run: "status (threads st ! i) = ThreadRunning"
  shows
   "(length (threads (dispatch lib path st)) = length (threads st))
    \<or> (length (threads (dispatch lib path st)) = Suc (length (threads st))
       \<and> qt_calls (dispatch lib path st)
            = qt_calls st @ [Quit i, Wait i, Start (length (threads st))]
       \<and> status (threads (dispatch lib path st) ! i) = ThreadFinished
       \<and> phase (threads (dispatch lib path st) ! i) = Returned)"
proof -
  let ?s0 = "empty_cache lib (st\<lparr>text_output := []\<rparr>)"
  let ?s1 = "quit_and_wait lib i ?s0"
  have f: "threads ?s0 = threads st" "thread ?s0 = thread st" "qt_calls ?s0 = qt_calls st"
    by (simp_all add: empty_cache_frame)
  have d: "dispatch lib path st = check_prompt path ?s1"
    unfolding dispatch_def using cur lt run f by (intro stop_previous_running) simp_all
  have t1: "length (threads ?s1) = length (threads st)"
    "status (threads ?s1 ! i) = ThreadFinished" "phase (threads ?s1 ! i) = Returned"
    "qt_calls ?s1 = qt_calls st @ [Quit i, Wait i]"
    using f lt by (simp_all add: quit_and_wait_fields)
  from check_prompt_cases [of path ?s1] show ?thesis
  proof
    assume "check_prompt path ?s1 = show_dialog (Warning title_attention msg_enter_prompt) ?s1"
    then have "threads (dispatch lib path st) = threads ?s1"
      using d by (simp add: show_dialog_frame)
    then show ?thesis using t1 by simp
  next
    assume "\<exists>pr. check_prompt path ?s1 = create_worker path pr ?s1"
    then obtain pr where c: "dispatch lib path st = create_worker path pr ?s1" using d by auto
    have "length (threads (dispatch lib path st)) = Suc (length (threads st))"
      unfolding c create_worker_fields using t1(1) by simp
    moreover have "qt_calls (dispatch lib path st)
            = qt_calls st @ [Quit i, Wait i, Start (length (threads st))]"
      unfolding c create_worker_fields using t1(1,4) by simp
    moreover have "threads (dispatch lib path st) ! i = threads ?s1 ! i"
      unfolding c create_worker_fields using lt t1(1) by (simp add: nth_append)
    ultimately show ?thesis using t1(2,3) by simp
  qed
qed

text \<open>What \<open>start_ocr\<close> does to the fields the invariants speak of.\<close>

lemma start_ocr_cases:
  "(threads (start_ocr lib st) = threads st \<and> thread (start_ocr lib st) = thread st
      \<and> qt_calls (start_ocr lib st) = qt_calls st \<and> queue (start_ocr lib st) = queue st
      \<and> delivered (start_ocr lib st) = delivered st)
   \<or> (\<exists>path st'. start_ocr lib st = dispatch lib path st' \<and> threads st' = threads st
        \<and> thread st' = thread st \<and> qt_calls st' = qt_calls st \<and> queue st' = queue st
        \<and> delivered st' = delivered st)"
proof (cases "truthy (image_path st)")
  case False
  then show ?thesis by (simp add: start_ocr_no_image show_dialog_frame)
next
  case img: True
  show ?thesis
  proof (cases "truthy (current_model_path st)")
    case False
    then show ?thesis using img by (simp add: start_ocr_no_model_path show_dialog_frame)
  next
    case mdl: True
    obtain path where path: "image_path st = Some path" "path \<noteq> []"
      using img truthy_Some by blast
    obtain mp where mp: "current_model_path st = Some mp" "mp \<noteq> []"
      using mdl truthy_Some by blast
    show ?thesis
    proof (cases "processor st = None \<or> model st = None")
      case False
      then have "start_ocr lib st = dispatch lib path st"
        using path mdl by (intro start_ocr_loaded) simp_all
      then show ?thesis by blast
    next
      case True
      obtain r st1 where l: "load_model lib mp (log lib msg_loading_model st) = (r, st1)"
        by (metis surj_pair)
      have f1: "threads st1 = threads st" "thread st1 = thread st" "qt_calls st1 = qt_calls st"
        "queue st1 = queue st" "delivered st1 = delivered st"
        using load_model_frame [of lib mp "log lib msg_loading_model st"] l
        by (simp_all add: log_frame)
      show ?thesis
      proof (cases r)
        case (Inl x)
        then have "start_ocr lib st = st1\<lparr>uncaught := uncaught st1 @ [x]\<rparr>"
          using path mp True l by (intro start_ocr_load_escapes) simp_all
        then show ?thesis using f1 by simp
      next
        case (Inr pm)
        obtain p m where pm: "pm = (p, m)" by (cases pm)
        let ?st2 = "st1\<lparr>processor := p, model := m\<rparr>"
        have f2: "threads ?st2 = threads st" "thread ?st2 = thread st"
          "qt_calls ?st2 = qt_calls st" "queue ?st2 = queue st" "delivered ?st2 = delivered st"
          using f1 by simp_all
        have e: "start_ocr lib st =
           (if p = None \<or> m = None then show_dialog (Critical title_error msg_load_failed) ?st2
            else dispatch lib path ?st2)"
          using path mp True l Inr pm by (intro start_ocr_load) simp_all
        show ?thesis
        proof (cases "p = None \<or> m = None")
          case True
          then have "start_ocr lib st = show_dialog (Critical title_error msg_load_failed) ?st2"
            using e by (simp only: if_True)
          then show ?thesis using f2 by (simp add: show_dialog_frame)
        next
          case False
          then have "start_ocr lib st = dispatch lib path ?st2"
            using e by (simp only: if_False)
          then show ?thesis using f2 by blast
        qed
      qed
    qed
  qed
qed

text \<open>
  Claim C9. In every reachable state at most one worker is executing \<open>run\<close>. When the run
  button is clicked while the previous thread is still running (its worker executing \<open>run\<close> or
  not) and a new worker is created, the window has called \<open>quit\<close> and \<open>wait\<close> on the previous
  thread before \<open>start\<close> on the new one, and the previous thread has finished and left \<open>run\<close>.
\<close>

theorem one_worker_at_a_time:
  assumes "reachable st"
  shows "(\<forall>i j. in_run st i \<and> in_run st j \<longrightarrow> i = j) \<and>
     (\<forall>lib i. thread st = Some i \<and> status (threads st ! i) = ThreadRunning
          \<and> length (threads st) < length (threads (start_ocr lib st)) \<longrightarrow>
        qt_calls (start_ocr lib st)
          = qt_calls st @ [Quit i, Wait i, Start (length (threads st))]
        \<and> status (threads (start_ocr lib st) ! i) = ThreadFinished
        \<and> phase (threads (start_ocr lib st) ! i) = Returned)"
proof -
  have inv: "thread_inv st" using assms by (rule reachable_inv)
  have cur: "\<And>i. in_run st i \<Longrightarrow>
      i < length (threads st) \<and> status (threads st ! i) = ThreadRunning \<and> thread st = Some i"
    using inv in_run_running unfolding in_run_def by blast
  have one: "\<forall>i j. in_run st i \<and> in_run st j \<longrightarrow> i = j"
    using cur by (metis option.inject)
  have two: "\<And>lib i. thread st = Some i \<Longrightarrow> status (threads st ! i) = ThreadRunning
      \<Longrightarrow> length (threads st) < length (threads (start_ocr lib st))
      \<Longrightarrow> qt_calls (start_ocr lib st)
          = qt_calls st @ [Quit i, Wait i, Start (length (threads st))]
        \<and> status (threads (start_ocr lib st) ! i) = ThreadFinished
        \<and> phase (threads (start_ocr lib st) ! i) = Returned"
  proof -
    fix lib i
    assume c: "thread st = Some i" and r: "status (threads st ! i) = ThreadRunning"
      and g: "length (threads st) < length (threads (start_ocr lib st))"
    have lt: "i < length (threads st)" using inv c by (rule thread_inv_current)
    from start_ocr_cases [of lib st] g obtain path st' where
      d: "start_ocr lib st = dispatch lib path st'" and f: "threads st' = threads st"
        "thread st' = thread st" "qt_calls st' = qt_calls st"
      by auto
    have "thread st' = Some i" "i < length (threads st')"
      "status (threads st' ! i) = ThreadRunning"
      using c r lt f by simp_all
    from dispatch_running [OF this, of lib path] g show
      "qt_calls (start_ocr lib st)
          = qt_calls st @ [Quit i, Wait i, Start (length (threads st))]
        \<and> status (threads (start_ocr lib st) ! i) = ThreadFinished
        \<and> phase (threads (start_ocr lib st) ! i) = Returned"
      unfolding d f by auto
  qed
  show ?thesis using one two by blast
qed

lemma handle_inv_frame:
  "processor st' = processor st \<Longrightarrow> model st' = model st \<Longrightarrow> loads st' = loads st \<Longrightarrow>
   threads st' = threads st \<Longrightarrow> handle_inv p m ls n st' = handle_inv p m ls n st"
  by (simp add: handle_inv_def)

lemma handle_inv_update:
  assumes h: "handle_inv p m ls n st" and lt: "i < length (threads st)"
    and j: "job t = job (threads st ! i)"
    and f: "processor st' = processor st" "model st' = model st" "loads st' = loads st"
      "threads st' = (threads st)[i := t]"
  shows "handle_inv p m ls n st'"
proof -
  have "\<And>k. k < length (threads st) \<Longrightarrow> job (threads st' ! k) = job (threads st ! k)"
  proof -
    fix k assume "k < length (threads st)"
    then show "job (threads st' ! k) = job (threads st ! k)"
      using j f(4) by (cases "k = i") simp_all
  qed
  moreover have "length (threads st') = length (threads st)" using f(4) by simp
  ultimately show ?thesis using h f(1,2,3) unfolding handle_inv_def by auto
qed

lemma create_worker_handle:
  assumes h: "handle_inv p m ls n st"
  shows "handle_inv p m ls n (create_worker path pr st)"
proof -
  let ?st = "create_worker path pr st"
  have pm: "processor st = Some p" "model st = Some m" using h by (simp_all add: handle_inv_def)
  have old: "\<And>k. k < length (threads st) \<Longrightarrow> threads ?st ! k = threads st ! k"
    by (simp add: create_worker_fields nth_append)
  have new: "job (threads ?st ! length (threads st)) =
      \<lparr>w_image_path = path, w_prompt_text = pr, w_processor = Some p, w_model = Some m\<rparr>"
    using pm by (simp add: create_worker_fields)
  have len: "length (threads ?st) = Suc (length (threads st))"
    by (simp add: create_worker_fields)
  have "\<And>k. n \<le> k \<Longrightarrow> k < length (threads ?st) \<Longrightarrow>
      w_processor (job (threads ?st ! k)) = Some p \<and> w_model (job (threads ?st ! k)) = Some m"
  proof -
    fix k assume a: "n \<le> k" "k < length (threads ?st)"
    show "w_processor (job (threads ?st ! k)) = Some p \<and> w_model (job (threads ?st ! k)) = Some m"
    proof (cases "k = length (threads st)")
      case True
      then show ?thesis using new by simp
    next
      case False
      then have "k < length (threads st)" using a len by simp
      then show ?thesis using a h old unfolding handle_inv_def by simp
    qed
  qed
  moreover have "n \<le> length (threads ?st)" using h len by (simp add: handle_inv_def)
  ultimately show ?thesis using h unfolding handle_inv_def
    by (simp add: create_worker_fields(4,5,6))
qed

lemma show_dialog_handle: "handle_inv p m ls n (show_dialog d st) = handle_inv p m ls n st"
  by (rule handle_inv_frame) (simp_all add: show_dialog_frame)

lemma check_prompt_handle:
  assumes "handle_inv p m ls n st"
  shows "handle_inv p m ls n (check_prompt path st)"
  using check_prompt_cases [of path st] assms
  by (auto simp: show_dialog_handle create_worker_handle)

lemma stop_previous_handle:
  assumes h: "handle_inv p m ls n st"
  shows "handle_inv p m ls n (stop_previous lib path st)"
proof (cases "thread st")
  case None
  then show ?thesis using h by (simp add: stop_previous_def check_prompt_handle)
next
  case (Some i)
  show ?thesis
  proof (cases "i < length (threads st)")
    case False
    then show ?thesis using h Some by (simp add: stop_previous_def check_prompt_handle)
  next
    case lt: True
    show ?thesis
    proof (cases "status (threads st ! i)")
      case ThreadRunning
      let ?st = "quit_and_wait lib i st"
      have "handle_inv p m ls n ?st"
        using h lt
        by (rule handle_inv_update [where t = "(threads st ! i)
              \<lparr>status := ThreadFinished, phase := Returned,
               emitted := emitted (threads st ! i) @ rest_of_run lib (threads st ! i),
               remaining := []\<rparr>"])
          (simp_all add: quit_and_wait_fields)
      then have "handle_inv p m ls n (check_prompt path ?st)" by (rule check_prompt_handle)
      then show ?thesis using Some lt ThreadRunning by (simp add: stop_previous_def)
    next
      case ThreadFinished
      then show ?thesis using h Some lt by (simp add: stop_previous_def check_prompt_handle)
    next
      case ThreadDeleted
      then have "stop_previous lib path st = st\<lparr>uncaught := uncaught st @ [deleted_error]\<rparr>"
        using Some lt by (simp add: stop_previous_def)
      moreover have "handle_inv p m ls n (st\<lparr>uncaught := uncaught st @ [deleted_error]\<rparr>)
          = handle_inv p m ls n st"
        by (rule handle_inv_frame) simp_all
      ultimately show ?thesis using h by simp
    qed
  qed
qed

lemma dispatch_handle:
  assumes h: "handle_inv p m ls n st"
  shows "handle_inv p m ls n (dispatch lib path st)"
proof -
  have "handle_inv p m ls n (empty_cache lib (st\<lparr>text_output := []\<rparr>)) = handle_inv p m ls n st"
    by (rule handle_inv_frame) (simp_all add: empty_cache_frame)
  then show ?thesis unfolding dispatch_def using h by (simp add: stop_previous_handle)
qed

lemma start_ocr_handle:
  assumes h: "handle_inv p m ls n st"
  shows "handle_inv p m ls n (start_ocr lib st)"
proof (cases "truthy (image_path st)")
  case False
  then show ?thesis using h by (simp add: start_ocr_no_image show_dialog_handle)
next
  case img: True
  show ?thesis
  proof (cases "truthy (current_model_path st)")
    case False
    then show ?thesis using h img by (simp add: start_ocr_no_model_path show_dialog_handle)
  next
    case mdl: True
    obtain path where path: "image_path st = Some path" "path \<noteq> []"
      using img truthy_Some by blast
    have "processor st \<noteq> None" "model st \<noteq> None" using h by (simp_all add: handle_inv_def)
    then have "start_ocr lib st = dispatch lib path st"
      using path mdl by (intro start_ocr_loaded) simp_all
    then show ?thesis using h by (simp add: dispatch_handle)
  qed
qed

lemma step_handle: "step st st' \<Longrightarrow> handle_inv p m ls n st \<Longrightarrow> handle_inv p m ls n st'"
proof (induction rule: step.induct)
  case (run_clicked st lib)
  then show ?case by (rule start_ocr_handle)
next
  case (model_changed st lib index)
  have "handle_inv p m ls n (on_model_changed lib index st) = handle_inv p m ls n st"
    by (rule handle_inv_frame) (simp_all add: on_model_changed_frame)
  then show ?case using model_changed by simp
next
  case (image_chosen st lib path)
  have "handle_inv p m ls n (choose_image lib path st) = handle_inv p m ls n st"
    by (rule handle_inv_frame) (simp_all add: choose_image_frame)
  then show ?case using image_chosen by simp
next
  case (prompt_edited st t)
  have "handle_inv p m ls n (st\<lparr>text_prompt := t\<rparr>) = handle_inv p m ls n st"
    by (rule handle_inv_frame) simp_all
  then show ?case using prompt_edited by simp
next
  case (signal_delivered st lib)
  have "handle_inv p m ls n (deliver_next lib st) = handle_inv p m ls n st"
    by (rule handle_inv_frame) (simp_all add: deliver_next_frame)
  then show ?case using signal_delivered by simp
next
  case (run_entered i st e)
  from run_entered(4) run_entered(1) show ?case
    by (rule handle_inv_update [where t = "(threads st ! i)
          \<lparr>phase := InRun, remaining := run e (job (threads st ! i))\<rparr>"])
      (simp_all add: set_thread_fields)
next
  case (signal_emitted i st)
  obtain sig rest where r: "remaining (threads st ! i) = sig # rest"
    using signal_emitted(3) by (cases "remaining (threads st ! i)") auto
  from signal_emitted(4) signal_emitted(1) show ?case
    by (rule handle_inv_update [where t = "(threads st ! i)
          \<lparr>emitted := emitted (threads st ! i) @ [sig], remaining := rest\<rparr>"])
      (simp_all add: emit_next_fields [OF r])
next
  case (run_returned i st)
  from run_returned(4) run_returned(1) show ?case
    by (rule handle_inv_update [where t = "(threads st ! i)\<lparr>phase := Returned\<rparr>"])
      (simp_all add: set_thread_fields)
next
  case (thread_deleted i st)
  from thread_deleted(3) thread_deleted(1) show ?case
    by (rule handle_inv_update [where t = "(threads st ! i)\<lparr>status := ThreadDeleted\<rparr>"])
      (simp_all add: set_thread_fields)
qed

lemma steps_handle:
  "step\<^sup>*\<^sup>* st st' \<Longrightarrow> handle_inv p m ls n st \<Longrightarrow> handle_inv p m ls n st'"
  by (induction rule: rtranclp_induct) (auto intro: step_handle)

text \<open>
  Claim C8. Once the window holds a processor and a model, they stay the same through every
  later step: no step loads a model again, whatever model path is selected in between, and
  every worker created afterwards is given that processor and that model.
\<close>

theorem loaded_handle_is_reused:
  assumes "processor st = Some p" and "model st = Some m" and "step\<^sup>*\<^sup>* st st'"
  shows "processor st' = Some p \<and> model st' = Some m \<and> loads st' = loads st \<and>
    (\<forall>i. length (threads st) \<le> i \<and> i < length (threads st') \<longrightarrow>
       w_processor (job (threads st' ! i)) = Some p \<and> w_model (job (threads st' ! i)) = Some m)"
proof -
  have "handle_inv p m (loads st) (length (threads st)) st"
    using assms(1,2) by (auto simp: handle_inv_def)
  with assms(3) have "handle_inv p m (loads st) (length (threads st)) st'"
    by (rule steps_handle)
  then show ?thesis by (simp add: handle_inv_def)
qed

lemma signals_of_append: "signals_of i (a @ b) = signals_of i a @ signals_of i b"
  by (simp add: signals_of_def)

lemma signals_of_map_Pair: "signals_of i (map (Pair j) l) = (if i = j then l else [])"
  by (cases "i = j") (simp_all add: signals_of_def filter_map comp_def)

lemma signals_of_none: "\<forall>ev\<in>set evs. fst ev \<noteq> i \<Longrightarrow> signals_of i evs = []"
  by (induction evs) (simp_all add: signals_of_def)

lemma delivery_inv_frame:
  "threads st' = threads st \<Longrightarrow> queue st' = queue st \<Longrightarrow> delivered st' = delivered st \<Longrightarrow>
   delivery_inv st' = delivery_inv st"
  by (simp add: delivery_inv_def)

lemma delivery_inv_thread:
  assumes "delivery_inv st" "i < length (threads st)"
  shows "signals_of i (delivered st @ queue st) = emitted (threads st ! i)"
    "phase (threads st ! i) = Returned \<Longrightarrow> remaining (threads st ! i) = []"
    "phase (threads st ! i) = NotStarted \<Longrightarrow>
       emitted (threads st ! i) = [] \<and> remaining (threads st ! i) = []"
    "phase (threads st ! i) \<noteq> NotStarted \<Longrightarrow>
       \<exists>e. emitted (threads st ! i) @ remaining (threads st ! i) = run e (job (threads st ! i))"
  using assms unfolding delivery_inv_def by blast+

lemma delivery_inv_events:
  "delivery_inv st \<Longrightarrow> ev \<in> set (delivered st @ queue st) \<Longrightarrow> fst ev < length (threads st)"
  unfolding delivery_inv_def by blast

lemma delivery_invI:
  assumes "\<And>i. i < length (threads st) \<Longrightarrow>
        signals_of i (delivered st @ queue st) = emitted (threads st ! i)"
    and "\<And>i. i < length (threads st) \<Longrightarrow> phase (threads st ! i) = Returned \<Longrightarrow>
        remaining (threads st ! i) = []"
    and "\<And>i. i < length (threads st) \<Longrightarrow> phase (threads st ! i) = NotStarted \<Longrightarrow>
        emitted (threads st ! i) = [] \<and> remaining (threads st ! i) = []"
    and "\<And>i. i < length (threads st) \<Longrightarrow> phase (threads st ! i) \<noteq> NotStarted \<Longrightarrow>
        \<exists>e. emitted (threads st ! i) @ remaining (threads st ! i) = run e (job (threads st ! i))"
    and "\<And>ev. ev \<in> set (delivered st @ queue st) \<Longrightarrow> fst ev < length (threads st)"
  shows "delivery_inv st"
  unfolding delivery_inv_def using assms by blast

lemma delivery_inv_update:
  assumes inv: "delivery_inv st" and lt: "i < length (threads st)"
    and upd: "threads st' = (threads st)[i := t]"
    and del: "delivered st' = delivered st"
    and que: "queue st' = queue st @ map (Pair i) new"
    and emi: "emitted t = emitted (threads st ! i) @ new"
    and ret: "phase t = Returned \<Longrightarrow> remaining t = []"
    and not: "phase t = NotStarted \<Longrightarrow> emitted t = [] \<and> remaining t = []"
    and run: "phase t \<noteq> NotStarted \<Longrightarrow> \<exists>e. emitted t @ remaining t = run e (job t)"
  shows "delivery_inv st'"
proof (rule delivery_invI)
  fix j assume j: "j < length (threads st')"
  then have jl: "j < length (threads st)" using upd by simp
  have same: "j \<noteq> i \<Longrightarrow> threads st' ! j = threads st ! j" using upd by simp
  have this_one: "j = i \<Longrightarrow> threads st' ! j = t" using upd lt by simp
  show "signals_of j (delivered st' @ queue st') = emitted (threads st' ! j)"
  proof (cases "j = i")
    case True
    have "signals_of i (delivered st' @ queue st')
        = signals_of i (delivered st @ queue st) @ new"
      by (simp add: del que signals_of_append signals_of_map_Pair)
    then show ?thesis using True this_one emi delivery_inv_thread(1) [OF inv lt] by simp
  next
    case False
    have "signals_of j (delivered st' @ queue st') = signals_of j (delivered st @ queue st)"
      using False by (simp add: del que signals_of_append signals_of_map_Pair)
    then show ?thesis using False same delivery_inv_thread(1) [OF inv jl] by simp
  qed
  show "remaining (threads st' ! j) = []" if "phase (threads st' ! j) = Returned"
    using that this_one same ret delivery_inv_thread(2) [OF inv jl] by (cases "j = i") simp_all
  show "emitted (threads st' ! j) = [] \<and> remaining (threads st' ! j) = []"
    if "phase (threads st' ! j) = NotStarted"
    using that this_one same not delivery_inv_thread(3) [OF inv jl] by (cases "j = i") simp_all
  show "\<exists>e. emitted (threads st' ! j) @ remaining (threads st' ! j)
      = run e (job (threads st' ! j))" if "phase (threads st' ! j) \<noteq> NotStarted"
    using that this_one same run delivery_inv_thread(4) [OF inv jl] by (cases "j = i") simp_all
next
  fix ev assume "ev \<in> set (delivered st' @ queue st')"
  then have "ev \<in> set (delivered st @ queue st) \<or> fst ev = i"
    by (auto simp: del que)
  then show "fst ev < length (threads st')"
  proof
    assume "ev \<in> set (delivered st @ queue st)"
    then have "fst ev < length (threads st)" using inv by (rule delivery_inv_events [rotated])
    then show ?thesis using upd by simp
  next
    assume "fst ev = i"
    then show ?thesis using lt upd by simp
  qed
qed

lemma create_worker_delivery:
  assumes inv: "delivery_inv st"
  shows "delivery_inv (create_worker path pr st)"
proof (rule delivery_invI)
  let ?st = "create_worker path pr st"
  let ?n = "length (threads st)"
  have q: "delivered ?st @ queue ?st = delivered st @ queue st"
    by (simp add: create_worker_fields)
  have len: "length (threads ?st) = Suc ?n" by (simp add: create_worker_fields)
  have old: "\<And>i. i < ?n \<Longrightarrow> threads ?st ! i = threads st ! i"
    by (simp add: create_worker_fields nth_append)
  have new: "emitted (threads ?st ! ?n) = []" "remaining (threads ?st ! ?n) = []"
    "phase (threads ?st ! ?n) = NotStarted"
    by (simp_all add: create_worker_fields)
  have none: "signals_of ?n (delivered st @ queue st) = []"
  proof (rule signals_of_none, rule ballI)
    fix ev assume "ev \<in> set (delivered st @ queue st)"
    then have "fst ev < ?n" using inv by (rule delivery_inv_events [rotated])
    then show "fst ev \<noteq> ?n" by simp
  qed
  fix i assume i: "i < length (threads ?st)"
  then have c: "i < ?n \<or> i = ?n" using len by auto
  show "signals_of i (delivered ?st @ queue ?st) = emitted (threads ?st ! i)"
    using c
  proof
    assume "i < ?n"
    then show ?thesis using old delivery_inv_thread(1) [OF inv] q by simp
  next
    assume "i = ?n"
    then show ?thesis using none new q by simp
  qed
  show "remaining (threads ?st ! i) = []" if "phase (threads ?st ! i) = Returned"
    using c
  proof
    assume "i < ?n"
    then show ?thesis using that old delivery_inv_thread(2) [OF inv] by simp
  next
    assume "i = ?n"
    then show ?thesis using new by simp
  qed
  show "emitted (threads ?st ! i) = [] \<and> remaining (threads ?st ! i) = []"
    if "phase (threads ?st ! i) = NotStarted"
    using c
  proof
    assume "i < ?n"
    then show ?thesis using that old delivery_inv_thread(3) [OF inv] by simp
  next
    assume "i = ?n"
    then show ?thesis using new by simp
  qed
  show "\<exists>e. emitted (threads ?st ! i) @ remaining (threads ?st ! i)
      = run e (job (threads ?st ! i))" if "phase (threads ?st ! i) \<noteq> NotStarted"
    using c
  proof
    assume "i < ?n"
    then show ?thesis using that old delivery_inv_thread(4) [OF inv] by simp
  next
    assume "i = ?n"
    then show ?thesis using that new by simp
  qed
next
  let ?st = "create_worker path pr st"
  fix ev assume "ev \<in> set (delivered ?st @ queue ?st)"
  then have "ev \<in> set (delivered st @ queue st)" by (simp add: create_worker_fields)
  then have "fst ev < length (threads st)" using inv by (rule delivery_inv_events [rotated])
  then show "fst ev < length (threads ?st)" by (simp add: create_worker_fields)
qed

lemma show_dialog_delivery: "delivery_inv (show_dialog d st) = delivery_inv st"
  by (rule delivery_inv_frame) (simp_all add: show_dialog_frame)

lemma check_prompt_delivery:
  assumes "delivery_inv st"
  shows "delivery_inv (check_prompt path st)"
  using check_prompt_cases [of path st] assms
  by (auto simp: show_dialog_delivery create_worker_delivery)

lemma quit_and_wait_delivery:
  assumes inv: "delivery_inv st" and lt: "i < length (threads st)"
  shows "delivery_inv (quit_and_wait lib i st)"
proof -
  let ?old = "threads st ! i"
  let ?rest = "rest_of_run lib ?old"
  let ?t = "?old\<lparr>status := ThreadFinished, phase := Returned,
               emitted := emitted ?old @ ?rest, remaining := []\<rparr>"
  have r: "\<exists>e. emitted ?old @ ?rest = run e (job ?old)"
  proof (cases "phase ?old")
    case NotStarted
    then have "emitted ?old = []" using delivery_inv_thread(3) [OF inv lt] by simp
    then have "emitted ?old @ ?rest = run (world lib) (job ?old)"
      using NotStarted by (simp add: rest_of_run_def)
    then show ?thesis by blast
  next
    case InRun
    then have "?rest = remaining ?old" by (simp add: rest_of_run_def)
    then show ?thesis using InRun delivery_inv_thread(4) [OF inv lt] by simp
  next
    case Returned
    then have "?rest = []" "remaining ?old = []"
      using delivery_inv_thread(2) [OF inv lt] by (simp_all add: rest_of_run_def)
    then show ?thesis using Returned delivery_inv_thread(4) [OF inv lt] by simp
  qed
  from inv lt show ?thesis
    by (rule delivery_inv_update [where t = ?t and new = ?rest])
      (simp_all add: quit_and_wait_fields r)
qed

lemma stop_previous_delivery:
  assumes inv: "delivery_inv st"
  shows "delivery_inv (stop_previous lib path st)"
proof (cases "thread st")
  case None
  then show ?thesis using inv by (simp add: stop_previous_def check_prompt_delivery)
next
  case (Some i)
  show ?thesis
  proof (cases "i < length (threads st)")
    case False
    then show ?thesis using inv Some by (simp add: stop_previous_def check_prompt_delivery)
  next
    case lt: True
    show ?thesis
    proof (cases "status (threads st ! i)")
      case ThreadRunning
      have "delivery_inv (check_prompt path (quit_and_wait lib i st))"
        using inv lt by (intro check_prompt_delivery quit_and_wait_delivery)
      then show ?thesis using Some lt ThreadRunning by (simp add: stop_previous_def)
    next
      case ThreadFinished
      then show ?thesis using inv Some lt by (simp add: stop_previous_def check_prompt_delivery)
    next
      case ThreadDeleted
      then have "stop_previous lib path st = st\<lparr>uncaught := uncaught st @ [deleted_error]\<rparr>"
        using Some lt by (simp add: stop_previous_def)
      moreover have "delivery_inv (st\<lparr>uncaught := uncaught st @ [deleted_error]\<rparr>)
          = delivery_inv st"
        by (rule delivery_inv_frame) simp_all
      ultimately show ?thesis using inv by simp
    qed
  qed
qed

lemma dispatch_delivery:
  assumes "delivery_inv st"
  shows "delivery_inv (dispatch lib path st)"
proof -
  have "delivery_inv (empty_cache lib (st\<lparr>text_output := []\<rparr>)) = delivery_inv st"
    by (rule delivery_inv_frame) (simp_all add: empty_cache_frame)
  then show ?thesis unfolding dispatch_def using assms by (simp add: stop_previous_delivery)
qed

lemma start_ocr_delivery:
  assumes inv: "delivery_inv st"
  shows "delivery_inv (start_ocr lib st)"
  using start_ocr_cases [of lib st]
proof
  assume "threads (start_ocr lib st) = threads st \<and> thread (start_ocr lib st) = thread st
      \<and> qt_calls (start_ocr lib st) = qt_calls st \<and> queue (start_ocr lib st) = queue st
      \<and> delivered (start_ocr lib st) = delivered st"
  then have "delivery_inv (start_ocr lib st) = delivery_inv st"
    by (intro delivery_inv_frame) simp_all
  then show ?thesis using inv by simp
next
  assume "\<exists>path st'. start_ocr lib st = dispatch lib path st' \<and> threads st' = threads st
        \<and> thread st' = thread st \<and> qt_calls st' = qt_calls st \<and> queue st' = queue st
        \<and> delivered st' = delivered st"
  then obtain path st' where d: "start_ocr lib st = dispatch lib path st'"
    and f: "threads st' = threads st" "queue st' = queue st" "delivered st' = delivered st"
    by blast
  have "delivery_inv st' = delivery_inv st" using f by (rule delivery_inv_frame)
  then show ?thesis unfolding d using inv by (simp add: dispatch_delivery)
qed

lemma deliver_next_delivery:
  assumes inv: "delivery_inv st" and q: "queue st \<noteq> []"
  shows "delivery_inv (deliver_next lib st)"
proof -
  obtain ev rest where e: "queue st = ev # rest" using q by (cases "queue st") auto
  have "delivered (deliver_next lib st) @ queue (deliver_next lib st)
      = delivered st @ queue st"
    using deliver_next_queue [OF e, of lib] e by simp
  then show ?thesis using inv unfolding delivery_inv_def
    by (simp add: deliver_next_frame)
qed

lemma step_delivery: "step st st' \<Longrightarrow> delivery_inv st \<Longrightarrow> delivery_inv st'"
proof (induction rule: step.induct)
  case (run_clicked st lib)
  then show ?case by (rule start_ocr_delivery)
next
  case (model_changed st lib index)
  have "delivery_inv (on_model_changed lib index st) = delivery_inv st"
    by (rule delivery_inv_frame) (simp_all add: on_model_changed_frame)
  then show ?case using model_changed by simp
next
  case (image_chosen st lib path)
  have "delivery_inv (choose_image lib path st) = delivery_inv st"
    by (rule delivery_inv_frame) (simp_all add: choose_image_frame)
  then show ?case using image_chosen by simp
next
  case (prompt_edited st t)
  have "delivery_inv (st\<lparr>text_prompt := t\<rparr>) = delivery_inv st"
    by (rule delivery_inv_frame) simp_all
  then show ?case using prompt_edited by simp
next
  case (signal_delivered st lib)
  then show ?case by (simp add: deliver_next_delivery)
next
  case (run_entered i st e)
  have "emitted (threads st ! i) = []"
    using delivery_inv_thread(3) [OF run_entered(4) run_entered(1)] run_entered(3) by simp
  then have r: "\<exists>e'. emitted (threads st ! i) @ run e (job (threads st ! i))
      = run e' (job (threads st ! i))" by auto
  from run_entered(4) run_entered(1) show ?case
    by (rule delivery_inv_update [where new = "[]" and t = "(threads st ! i)
          \<lparr>phase := InRun, remaining := run e (job (threads st ! i))\<rparr>"])
      (simp_all add: set_thread_fields r)
next
  case (signal_emitted i st)
  obtain sig rest where r: "remaining (threads st ! i) = sig # rest"
    using signal_emitted(3) by (cases "remaining (threads st ! i)") auto
  have "\<exists>e. emitted (threads st ! i) @ remaining (threads st ! i)
      = run e (job (threads st ! i))"
    using delivery_inv_thread(4) [OF signal_emitted(4) signal_emitted(1)] signal_emitted(2)
    by simp
  then have e: "\<exists>e. emitted (threads st ! i) @ sig # rest = run e (job (threads st ! i))"
    using r by simp
  from signal_emitted(4) signal_emitted(1) show ?case
    by (rule delivery_inv_update [where new = "[sig]" and t = "(threads st ! i)
          \<lparr>emitted := emitted (threads st ! i) @ [sig], remaining := rest\<rparr>"])
      (simp_all add: emit_next_fields [OF r] signal_emitted(2) e)
next
  case (run_returned i st)
  have "\<exists>e. emitted (threads st ! i) @ remaining (threads st ! i)
      = run e (job (threads st ! i))"
    using delivery_inv_thread(4) [OF run_returned(4) run_returned(1)] run_returned(2)
    by simp
  then have e: "\<exists>e. emitted (threads st ! i) = run e (job (threads st ! i))"
    using run_returned(3) by simp
  from run_returned(4) run_returned(1) show ?case
    by (rule delivery_inv_update [where new = "[]"
          and t = "(threads st ! i)\<lparr>phase := Returned\<rparr>"])
      (simp_all add: set_thread_fields run_returned(3) e)
next
  case (thread_deleted i st)
  note t = delivery_inv_thread [OF thread_deleted(3) thread_deleted(1)]
  from thread_deleted(3) thread_deleted(1) show ?case
    by (rule delivery_inv_update [where new = "[]"
          and t = "(threads st ! i)\<lparr>status := ThreadDeleted\<rparr>"])
      (simp_all add: set_thread_fields t(2,3,4))
qed

lemma reachable_delivery: "reachable st \<Longrightarrow> delivery_inv st"
proof (induction rule: reachable.induct)
  case (start models prompt)
  show ?case by (rule delivery_invI) (simp_all add: init_window_def)
next
  case (next_step st st')
  then show ?case using step_delivery by blast
qed

lemmas window_eval =
  start_ocr_def dispatch_def stop_previous_def quit_and_wait_def rest_of_run_def
  check_prompt_def create_worker_def load_model_def load_failed_def empty_cache_def
  show_dialog_def log_def display_result_def choose_image_def on_model_changed_def
  item_data_def init_window_def truthy_def scenario_library_def scenario_models_def
  set_thread_def Let_def u_def strip_def lstrip_def rstrip_def is_space_def

lemma library_fields:
  "cuda_available scenario_library = True"
  "processor_from_pretrained scenario_library p = Inr (Processor (length p))"
  "model_from_pretrained scenario_library p = Inr (Model (length p), u ''cuda:0'', None)"
  "strftime scenario_library n = u ''12:00:00''"
  "basename scenario_library p = p"
  "world scenario_library = scenario_env (800, 600) (u ''Hello world'')"
  by (simp_all add: scenario_library_def)

lemmas dispatch_eval =
  start_ocr_def dispatch_def stop_previous_def quit_and_wait_def rest_of_run_def
  check_prompt_def create_worker_def load_model_def load_failed_def empty_cache_def
  show_dialog_def log_def truthy_def library_fields
  Let_def u_def strip_def lstrip_def rstrip_def is_space_def

lemma scenario_run:
  "run (scenario_env (800, 600) (u ''Hello world'')) scenario_job = scenario_signals"
  by (simp add: scenario_job_def scenario_signals_def run_def try_body_def prepare_image_def
      shrink_def convert_def scenario_env_def max_size_def sanitize_eval)

lemma selected_fields:
  "image_path scenario_selected = Some (u ''page.png'')"
  "current_model_path scenario_selected = Some (u ''/models/m1'')"
  "processor scenario_selected = None" "model scenario_selected = None"
  "thread scenario_selected = None" "threads scenario_selected = []"
  "text_prompt scenario_selected = u ''Extract text''"
  "loads scenario_selected = []" "qt_calls scenario_selected = []"
  "dialogs scenario_selected = []" "text_output scenario_selected = []"
  "queue scenario_selected = []" "delivered scenario_selected = []"
  by (simp_all add: scenario_selected_def window_eval)

lemma first_fields:
  "processor scenario_first = Some (Processor 10)"
  "model scenario_first = Some (Model 10)"
  "thread scenario_first = Some 0"
  "threads scenario_first =
     [\<lparr>status = ThreadRunning, phase = NotStarted, job = scenario_job,
       emitted = [], remaining = []\<rparr>]"
  "loads scenario_first = [u ''/models/m1'']"
  "qt_calls scenario_first = [Start 0]"
  "image_path scenario_first = Some (u ''page.png'')"
  "current_model_path scenario_first = Some (u ''/models/m1'')"
  "combo_model scenario_first = scenario_models"
  "dialogs scenario_first = []"
  "text_prompt scenario_first = u ''Extract text''"
  "text_output scenario_first = []"
  "queue scenario_first = []" "delivered scenario_first = []"
  by (simp_all add: scenario_first_def scenario_selected_def scenario_job_def window_eval)

lemma running_fields:
  "processor scenario_running = Some (Processor 10)"
  "model scenario_running = Some (Model 10)"
  "thread scenario_running = Some 0"
  "threads scenario_running =
     [\<lparr>status = ThreadRunning, phase = InRun, job = scenario_job,
       emitted = [], remaining = scenario_signals\<rparr>]"
  "loads scenario_running = [u ''/models/m1'']"
  "qt_calls scenario_running = [Start 0]"
  "image_path scenario_running = Some (u ''page.png'')"
  "current_model_path scenario_running = Some (u ''/models/m1'')"
  "dialogs scenario_running = []"
  "text_prompt scenario_running = u ''Extract text''"
  "text_output scenario_running = []"
  "queue scenario_running = []" "delivered scenario_running = []"
  by (simp_all add: scenario_running_def set_thread_def first_fields library_fields
      scenario_run)

lemma emitted_state:
  "(emit_next 0 ^^ 7) scenario_running =
     scenario_running
       \<lparr>threads := [\<lparr>status = ThreadRunning, phase = InRun, job = scenario_job,
                     emitted = scenario_signals, remaining = []\<rparr>],
        queue := map (Pair 0) scenario_signals\<rparr>"
  by (simp add: eval_nat_numeral emit_next_def running_fields scenario_signals_def Let_def)

lemma returned_fields:
  "processor scenario_returned = Some (Processor 10)"
  "model scenario_returned = Some (Model 10)"
  "thread scenario_returned = Some 0"
  "threads scenario_returned =
     [\<lparr>status = ThreadRunning, phase = Returned, job = scenario_job,
       emitted = scenario_signals, remaining = []\<rparr>]"
  "loads scenario_returned = [u ''/models/m1'']"
  "qt_calls scenario_returned = [Start 0]"
  "image_path scenario_returned = Some (u ''page.png'')"
  "current_model_path scenario_returned = Some (u ''/models/m1'')"
  "dialogs scenario_returned = []"
  "text_output scenario_returned = []"
  "text_prompt scenario_returned = u ''Extract text''"
  "queue scenario_returned = map (Pair 0) scenario_signals"
  "delivered scenario_returned = []"
  by (simp_all add: scenario_returned_def emitted_state set_thread_def running_fields)

lemma answered_fields:
  "processor scenario_answered = Some (Processor 10)"
  "model scenario_answered = Some (Model 10)"
  "thread scenario_answered = Some 0"
  "threads scenario_answered =
     [\<lparr>status = ThreadRunning, phase = Returned, job = scenario_job,
       emitted = scenario_signals, remaining = []\<rparr>]"
  "loads scenario_answered = [u ''/models/m1'']"
  "qt_calls scenario_answered = [Start 0]"
  "image_path scenario_answered = Some (u ''page.png'')"
  "current_model_path scenario_answered = Some (u ''/models/m1'')"
  "dialogs scenario_answered = []"
  "text_output scenario_answered = u ''Hello world''"
  "text_prompt scenario_answered = u ''Extract text''"
  "queue scenario_answered = []"
  "delivered scenario_answered = map (Pair 0) scenario_signals"
  by (simp_all add: scenario_answered_def eval_nat_numeral deliver_next_def returned_fields
      scenario_signals_def log_def display_result_def Let_def)

lemma emit_next_keeps:
  assumes "i < length (threads st)"
  shows "length (threads (emit_next i st)) = length (threads st)"
    "phase (threads (emit_next i st) ! i) = phase (threads st ! i)"
  using assms by (simp_all add: emit_next_def Let_def split: list.splits)

lemma emit_reachable:
  assumes "reachable st" "i < length (threads st)" "phase (threads st ! i) = InRun"
  shows "reachable (emit_next i st)"
proof (cases "remaining (threads st ! i) = []")
  case True
  then have "emit_next i st = st" by (simp add: emit_next_def)
  then show ?thesis using assms(1) by simp
next
  case False
  then have "step st (emit_next i st)" using assms(2,3) by (intro step.signal_emitted)
  then show ?thesis using assms(1) reachable.next_step by blast
qed

lemma emit_funpow_reachable:
  assumes "reachable st" "i < length (threads st)" "phase (threads st ! i) = InRun"
  shows "reachable ((emit_next i ^^ k) st) \<and> i < length (threads ((emit_next i ^^ k) st))
    \<and> phase (threads ((emit_next i ^^ k) st) ! i) = InRun"
proof (induction k)
  case 0
  then show ?case using assms by simp
next
  case (Suc k)
  then show ?case using emit_reachable emit_next_keeps by simp
qed

lemma deliver_reachable:
  assumes "reachable st"
  shows "reachable (deliver_next lib st)"
proof (cases "queue st = []")
  case True
  then have "deliver_next lib st = st" by (simp add: deliver_next_def)
  then show ?thesis using assms by simp
next
  case False
  then have "step st (deliver_next lib st)" by (rule step.signal_delivered)
  then show ?thesis using assms reachable.next_step by blast
qed

lemma deliver_funpow_reachable:
  "reachable st \<Longrightarrow> reachable ((deliver_next lib ^^ k) st)"
  by (induction k) (simp_all add: deliver_reachable)

lemma reachable_selected: "reachable scenario_selected"
  unfolding scenario_selected_def
  by (rule reachable.next_step [OF reachable.start step.image_chosen])

lemma reachable_first: "reachable scenario_first"
  unfolding scenario_first_def
  by (rule reachable.next_step [OF reachable_selected step.run_clicked])

lemma step_first_running: "step scenario_first scenario_running"
proof -
  have "step scenario_first
     (set_thread 0 ((threads scenario_first ! 0)
        \<lparr>phase := InRun,
         remaining := run (world scenario_library) (job (threads scenario_first ! 0))\<rparr>)
       scenario_first)"
    by (rule step.run_entered) (simp_all add: first_fields)
  then show ?thesis by (simp add: scenario_running_def)
qed

lemma reachable_running: "reachable scenario_running"
  by (rule reachable.next_step [OF reachable_first step_first_running])

lemma reachable_returned: "reachable scenario_returned"
proof -
  let ?e = "(emit_next 0 ^^ 7) scenario_running"
  have r: "reachable ?e"
    using emit_funpow_reachable [OF reachable_running, of 0 7] by (simp add: running_fields)
  have "step ?e (set_thread 0 ((threads ?e ! 0)\<lparr>phase := Returned\<rparr>) ?e)"
    by (rule step.run_returned) (simp_all add: emitted_state)
  then show ?thesis unfolding scenario_returned_def using r reachable.next_step by blast
qed

lemma reachable_answered: "reachable scenario_answered"
  unfolding scenario_answered_def using reachable_returned by (rule deliver_funpow_reachable)

lemma signals_of_scenario: "signals_of 0 (map (Pair 0) l) = l"
  by (simp add: signals_of_map_Pair)

text \<open>
  Claim C2, as amended. Signals are delivered in emission order: in every reachable state,
  the signals of a worker that the main window has handled, followed by those still queued
  for it, are the signals the worker has emitted so far, in that order, and once the worker
  has entered \<open>run\<close> they are an initial part of the signals of one run of its job. One run
  emits log signals, then exactly one \<open>finished\<close> signal, then, on the success path only, the
  single log signal \<open>msg_done\<close> of line 134; on the paths of the entry check and of the two
  \<open>except\<close> clauses the \<open>finished\<close> signal is the last one. When an exception outside
  \<open>Exception\<close> leaves \<open>run\<close>, only log signals are emitted.
\<close>

theorem run_signal_order:
  "(escaping e w = None \<longrightarrow>
      (\<exists>pre r post. run e w = pre @ [Finished r] @ post \<and> (\<forall>s\<in>set pre. \<not> is_finished s) \<and>
         (if succeeded e w then post = [Log msg_done] else post = [])))
   \<and> (escaping e w \<noteq> None \<longrightarrow> (\<forall>s\<in>set (run e w). \<not> is_finished s) \<and> \<not> succeeded e w)
   \<and> (reachable st \<longrightarrow>
        (\<forall>i<length (threads st).
           signals_of i (delivered st) @ signals_of i (queue st) = emitted (threads st ! i)
           \<and> (phase (threads st ! i) = NotStarted \<longrightarrow> emitted (threads st ! i) = [])
           \<and> (phase (threads st ! i) \<noteq> NotStarted \<longrightarrow>
                (\<exists>e'. emitted (threads st ! i) @ remaining (threads st ! i)
                   = run e' (job (threads st ! i))))))"
proof -
  have a: "escaping e w = None \<longrightarrow>
      (\<exists>pre r post. run e w = pre @ [Finished r] @ post \<and> (\<forall>s\<in>set pre. \<not> is_finished s) \<and>
         (if succeeded e w then post = [Log msg_done] else post = []))"
    using run_shape_caught [of e w] by blast
  have b: "escaping e w \<noteq> None \<longrightarrow> (\<forall>s\<in>set (run e w). \<not> is_finished s) \<and> \<not> succeeded e w"
    using run_shape_escaping [of e w] by blast
  have c: "reachable st \<longrightarrow>
        (\<forall>i<length (threads st).
           signals_of i (delivered st) @ signals_of i (queue st) = emitted (threads st ! i)
           \<and> (phase (threads st ! i) = NotStarted \<longrightarrow> emitted (threads st ! i) = [])
           \<and> (phase (threads st ! i) \<noteq> NotStarted \<longrightarrow>
                (\<exists>e'. emitted (threads st ! i) @ remaining (threads st ! i)
                   = run e' (job (threads st ! i)))))"
  proof (intro impI allI)
    fix i assume r: "reachable st" and i: "i < length (threads st)"
    have inv: "delivery_inv st" using r by (rule reachable_delivery)
    show "signals_of i (delivered st) @ signals_of i (queue st) = emitted (threads st ! i)
           \<and> (phase (threads st ! i) = NotStarted \<longrightarrow> emitted (threads st ! i) = [])
           \<and> (phase (threads st ! i) \<noteq> NotStarted \<longrightarrow>
                (\<exists>e'. emitted (threads st ! i) @ remaining (threads st ! i)
                   = run e' (job (threads st ! i))))"
      using delivery_inv_thread [OF inv i] by (simp add: signals_of_append)
  qed
  show ?thesis using a b c by blast
qed

theorem run_signal_order_witness:
  "reachable scenario_answered \<and> 0 < length (threads scenario_answered)
   \<and> phase (threads scenario_answered ! 0) \<noteq> NotStarted
   \<and> signals_of 0 (delivered scenario_answered) = scenario_signals
   \<and> signals_of 0 (queue scenario_answered) = []
   \<and> remaining (threads scenario_answered ! 0) = []
   \<and> escaping (scenario_env (800, 600) (u ''Hello world'')) scenario_job = None
   \<and> succeeded (scenario_env (800, 600) (u ''Hello world'')) scenario_job
   \<and> run (scenario_env (800, 600) (u ''Hello world'')) scenario_job = scenario_signals
   \<and> escaping interrupted_env scenario_job \<noteq> None"
proof -
  have a: "escaping (scenario_env (800, 600) (u ''Hello world'')) scenario_job = None"
    "succeeded (scenario_env (800, 600) (u ''Hello world'')) scenario_job"
    by (simp_all add: escaping_def succeeded_def scenario_job_def try_body_def
        prepare_image_def shrink_def convert_def scenario_env_def max_size_def)
  have b: "escaping interrupted_env scenario_job \<noteq> None"
    by (simp add: escaping_def interrupted_env_def scenario_job_def try_body_def
        prepare_image_def scenario_env_def)
  show ?thesis
    using run_signal_order [of "scenario_env (800, 600) (u ''Hello world'')" scenario_job
        scenario_answered]
      run_signal_order [of interrupted_env scenario_job scenario_answered]
      reachable_answered a b
    by (simp add: answered_fields signals_of_scenario scenario_run signals_of_def)
qed

text \<open>
  The claim as stated fails on the success path: the log signal of line 134 is emitted after
  the \<open>finished\<close> signal of line 133.
\<close>

theorem log_after_finished:
  "\<not> terminal_last (run (scenario_env (800, 600) (u ''Hello world''))
        (scenario_worker (Some (Processor 0)) (Some (Model 0))))"
  by (simp add: terminal_last_def run_eval)

lemma second_fields:
  "qt_calls (start_ocr scenario_library scenario_answered) = [Start 0, Quit 0, Wait 0, Start 1]"
  "length (threads (start_ocr scenario_library scenario_answered)) = 2"
  "status (threads (start_ocr scenario_library scenario_answered) ! 0) = ThreadFinished"
  "phase (threads (start_ocr scenario_library scenario_answered) ! 0) = Returned"
  "phase (threads (start_ocr scenario_library scenario_answered) ! 1) = NotStarted"
  by (simp_all add: answered_fields dispatch_eval)

theorem one_worker_at_a_time_witness:
  "reachable scenario_running \<and> in_run scenario_running 0
   \<and> reachable scenario_answered \<and> thread scenario_answered = Some 0
   \<and> status (threads scenario_answered ! 0) = ThreadRunning
   \<and> length (threads scenario_answered)
       < length (threads (start_ocr scenario_library scenario_answered))
   \<and> qt_calls (start_ocr scenario_library scenario_answered)
       = [Start 0, Quit 0, Wait 0, Start 1]
   \<and> status (threads (start_ocr scenario_library scenario_answered) ! 0) = ThreadFinished"
  using one_worker_at_a_time [OF reachable_running] one_worker_at_a_time [OF reachable_answered]
    reachable_running reachable_answered
  by (simp add: in_run_def running_fields answered_fields second_fields)

lemma changed_fields:
  "processor (on_model_changed scenario_library 1 scenario_first) = Some (Processor 10)"
  "model (on_model_changed scenario_library 1 scenario_first) = Some (Model 10)"
  "thread (on_model_changed scenario_library 1 scenario_first) = Some 0"
  "threads (on_model_changed scenario_library 1 scenario_first) = threads scenario_first"
  "image_path (on_model_changed scenario_library 1 scenario_first) = Some (u ''page.png'')"
  "current_model_path (on_model_changed scenario_library 1 scenario_first)
     = Some (u ''/models/m2'')"
  "text_prompt (on_model_changed scenario_library 1 scenario_first) = u ''Extract text''"
  by (simp_all add: on_model_changed_def item_data_def first_fields scenario_models_def
      truthy_def u_def Let_def log_def library_fields)

lemma changed_threads:
  "length (threads (start_ocr scenario_library
     (on_model_changed scenario_library 1 scenario_first))) = 2"
  by (simp add: changed_fields first_fields dispatch_eval)

theorem loaded_handle_is_reused_witness:
  "processor scenario_first = Some (Processor 10) \<and> model scenario_first = Some (Model 10)
   \<and> step\<^sup>*\<^sup>* scenario_first
        (start_ocr scenario_library (on_model_changed scenario_library 1 scenario_first))
   \<and> current_model_path (on_model_changed scenario_library 1 scenario_first)
        = Some (u ''/models/m2'')
   \<and> loads (start_ocr scenario_library (on_model_changed scenario_library 1 scenario_first))
        = [u ''/models/m1'']
   \<and> w_model (job (threads (start_ocr scenario_library
          (on_model_changed scenario_library 1 scenario_first)) ! 1)) = Some (Model 10)"
proof -
  let ?s = "start_ocr scenario_library (on_model_changed scenario_library 1 scenario_first)"
  have s: "step\<^sup>*\<^sup>* scenario_first ?s"
    by (meson step.model_changed step.run_clicked rtranclp.rtrancl_into_rtrancl
        rtranclp.rtrancl_refl)
  show ?thesis
    using loaded_handle_is_reused [OF first_fields(1) first_fields(2) s] s
    by (simp add: first_fields changed_fields(6) changed_threads)
qed

lemma blank_fresh:
  "loads (start_ocr scenario_library (scenario_selected\<lparr>text_prompt := u ''  ''\<rparr>))
     = [u ''/models/m1'']"
  "processor (start_ocr scenario_library (scenario_selected\<lparr>text_prompt := u ''  ''\<rparr>))
     = Some (Processor 10)"
  "length (text_log (start_ocr scenario_library (scenario_selected\<lparr>text_prompt := u ''  ''\<rparr>)))
     = length (text_log scenario_selected) + 3"
  "dialogs (start_ocr scenario_library (scenario_selected\<lparr>text_prompt := u ''  ''\<rparr>))
     = [Warning title_attention msg_enter_prompt]"
  "threads (start_ocr scenario_library (scenario_selected\<lparr>text_prompt := u ''  ''\<rparr>)) = []"
  by (simp_all add: selected_fields dispatch_eval)

lemma blank_answered:
  "text_output (start_ocr scenario_library (scenario_answered\<lparr>text_prompt := u ''  ''\<rparr>)) = []"
  "qt_calls (start_ocr scenario_library (scenario_answered\<lparr>text_prompt := u ''  ''\<rparr>))
     = [Start 0, Quit 0, Wait 0]"
  "map status (threads (start_ocr scenario_library
        (scenario_answered\<lparr>text_prompt := u ''  ''\<rparr>))) = [ThreadFinished]"
  "dialogs (start_ocr scenario_library (scenario_answered\<lparr>text_prompt := u ''  ''\<rparr>))
     = [Warning title_attention msg_enter_prompt]"
  by (simp_all add: answered_fields dispatch_eval)

text \<open>
  Claim C3 fails for the prompt precondition: the prompt is checked on line 405, after the
  model load, the clearing of the result display and the stopping of the previous thread.
  With a blank prompt and no model loaded yet, \<open>start_ocr\<close> loads the model and writes three
  log lines before it shows the warning; with a blank prompt after a displayed result, it
  clears the display and stops the previous thread. No worker is created in either case.
\<close>

theorem blank_prompt_side_effects:
  "loads (start_ocr scenario_library (scenario_selected\<lparr>text_prompt := u ''  ''\<rparr>))
     = [u ''/models/m1'']
   \<and> processor (start_ocr scenario_library (scenario_selected\<lparr>text_prompt := u ''  ''\<rparr>))
     = Some (Processor 10)
   \<and> length (text_log (start_ocr scenario_library (scenario_selected\<lparr>text_prompt := u ''  ''\<rparr>)))
     = length (text_log scenario_selected) + 3
   \<and> dialogs (start_ocr scenario_library (scenario_selected\<lparr>text_prompt := u ''  ''\<rparr>))
     = [Warning title_attention msg_enter_prompt]
   \<and> threads (start_ocr scenario_library (scenario_selected\<lparr>text_prompt := u ''  ''\<rparr>)) = []
   \<and> text_output scenario_answered = u ''Hello world''
   \<and> status (threads scenario_answered ! 0) = ThreadRunning
   \<and> text_output (start_ocr scenario_library (scenario_answered\<lparr>text_prompt := u ''  ''\<rparr>)) = []
   \<and> qt_calls (start_ocr scenario_library (scenario_answered\<lparr>text_prompt := u ''  ''\<rparr>))
     = [Start 0, Quit 0, Wait 0]
   \<and> map status (threads (start_ocr scenario_library
        (scenario_answered\<lparr>text_prompt := u ''  ''\<rparr>))) = [ThreadFinished]
   \<and> dialogs (start_ocr scenario_library (scenario_answered\<lparr>text_prompt := u ''  ''\<rparr>))
     = [Warning title_attention msg_enter_prompt]"
  by (simp add: blank_fresh blank_answered answered_fields)


end
